theory Spec2Isabelle
  imports Complex_Main "HOL-Library.Multiset" "HOL-Library.Sublist"
begin

section \<open>Candidate selection for dense-mapping loop closures\<close>

text \<open>
  A shallow embedding of \<^verbatim>\<open>dense-mapping-selection.cc\<close>. The candidate collection and the
  pose graph are passed explicitly and returned updated; a failing glog \<^verbatim>\<open>CHECK\<close> is the
  error value \<open>CheckFailed\<close>; a \<^verbatim>\<open>LOG(ERROR)\<close> line is a string appended to a returned
  diagnostic list. \<^verbatim>\<open>VLOG\<close> output and the counters that only feed it are left out.
  A C++ \<^verbatim>\<open>double\<close> is a value of the type \<open>double\<close> below; the comparisons of the
  code are those of IEEE 754, and the one computation in double arithmetic, the norm of a
  difference of two positions, is a parameter of the model.
\<close>

subsection \<open>Data model\<close>

type_synonym VertexId = nat
type_synonym EdgeId = nat

text \<open>
  The values of a \<^verbatim>\<open>double\<close>: a finite number, an infinity or a NaN. Every finite
  \<^verbatim>\<open>double\<close> is \<open>Finite x\<close> for its value \<open>x\<close>; that not every real \<open>x\<close> is one only
  makes a statement about all values of the type stronger. The two zeros compare equal
  and are one value here.
\<close>

datatype double = Finite real | PlusInfinity | MinusInfinity | NaN

text \<open>
  The comparisons \<^verbatim>\<open><\<close> and \<^verbatim>\<open><=\<close> of IEEE 754: false as soon as one side is a NaN.
  \<^verbatim>\<open>a > b\<close> is \<^verbatim>\<open>b < a\<close> and \<^verbatim>\<open>a >= b\<close> is \<^verbatim>\<open>b <= a\<close>.
\<close>

fun double_less :: "double \<Rightarrow> double \<Rightarrow> bool" where
  "double_less NaN b = False"
| "double_less a NaN = False"
| "double_less (Finite x) (Finite y) = (x < y)"
| "double_less (Finite x) PlusInfinity = True"
| "double_less (Finite x) MinusInfinity = False"
| "double_less PlusInfinity b = False"
| "double_less MinusInfinity MinusInfinity = False"
| "double_less MinusInfinity b = True"

fun double_less_eq :: "double \<Rightarrow> double \<Rightarrow> bool" where
  "double_less_eq NaN b = False"
| "double_less_eq a NaN = False"
| "double_less_eq (Finite x) (Finite y) = (x \<le> y)"
| "double_less_eq (Finite x) PlusInfinity = True"
| "double_less_eq (Finite x) MinusInfinity = False"
| "double_less_eq PlusInfinity PlusInfinity = True"
| "double_less_eq PlusInfinity b = False"
| "double_less_eq MinusInfinity b = True"

abbreviation double_greater :: "double \<Rightarrow> double \<Rightarrow> bool" where
  "double_greater a b \<equiv> double_less b a"

abbreviation double_greater_eq :: "double \<Rightarrow> double \<Rightarrow> bool" where
  "double_greater_eq a b \<equiv> double_less_eq b a"

type_synonym Vector3d = "double \<times> double \<times> double"

datatype error = CheckFailed

text \<open>
  The file names one edge type, \<^verbatim>\<open>kLoopClosure\<close>; \<open>kOtherEdgeType\<close> stands for the others.
\<close>

datatype EdgeType = kLoopClosure | kOtherEdgeType

text \<open>
  Modelled from the spec: the edge and vertex classes of the pose graph are declared outside
  this file. An edge is directed, with \<^verbatim>\<open>from()\<close>, \<^verbatim>\<open>to()\<close> and, for a loop closure, a
  switch variable; a vertex exposes its position \<^verbatim>\<open>p_M_I\<close> and knows its outgoing edges.
\<close>

record Edge =
  edge_type :: EdgeType
  edge_from :: VertexId
  edge_to :: VertexId
  getSwitchVariable :: double

record Vertex =
  get_p_M_I :: Vector3d
  outgoing_edges :: "EdgeId list"

record VIMap =
  vertices :: "VertexId \<rightharpoonup> Vertex"
  edges :: "EdgeId \<rightharpoonup> Edge"

text \<open>
  Modelled from the spec: the candidate types come from a header outside this file. Each side
  of a pair names its closest vertex; validity is an opaque capability of the pair, carried
  here as a field.
\<close>

record AlignmentCandidate =
  closest_vertex_id :: VertexId

record AlignmentCandidatePair =
  candidate_A :: AlignmentCandidate
  candidate_B :: AlignmentCandidate
  isValid :: bool

text \<open>
  Modelled from the spec: \<^verbatim>\<open>AlignmentCandidatePairs\<close> is an ordered collection with
  erase-during-iteration; it is a list here.
\<close>

type_synonym AlignmentCandidatePairs = "AlignmentCandidatePair list"

record SelectionConfig =
  recompute_all_constraints :: bool
  recompute_invalid_constraints :: bool
  constraint_min_switch_variable_value :: double
  max_number_of_candidates :: int
  filter_strategy :: string
  min_distance_to_next_candidate :: double

subsection \<open>The pose-graph interface\<close>

text \<open>
  Modelled from the spec: \<^verbatim>\<open>getVertex\<close> is fatal on a vertex that does not exist.
\<close>

definition getVertex :: "VIMap \<Rightarrow> VertexId \<Rightarrow> error + Vertex" where
  "getVertex m v = (case vertices m v of None \<Rightarrow> Inl CheckFailed | Some vert \<Rightarrow> Inr vert)"

text \<open>
  Modelled from the spec: \<^verbatim>\<open>getOutgoingOfType\<close> lists the ids of the edges of the given type
  that leave the vertex, and is fatal when the vertex does not exist.
\<close>

definition getOutgoingOfType :: "VIMap \<Rightarrow> EdgeType \<Rightarrow> VertexId \<Rightarrow> error + EdgeId list" where
  "getOutgoingOfType m ty v =
     (case getVertex m v of
        Inl e \<Rightarrow> Inl e
      | Inr vert \<Rightarrow>
          Inr (filter (\<lambda>i. case edges m i of None \<Rightarrow> False | Some e \<Rightarrow> edge_type e = ty)
                 (outgoing_edges vert)))"

text \<open>
  Modelled from the spec: \<^verbatim>\<open>removeEdge\<close> is fatal when the edge is absent; otherwise the edge
  leaves the edge store and the outgoing list of its source vertex.
\<close>

definition removeEdge :: "EdgeId \<Rightarrow> VIMap \<Rightarrow> error + VIMap" where
  "removeEdge i m =
     (case edges m i of
        None \<Rightarrow> Inl CheckFailed
      | Some e \<Rightarrow>
          Inr (m\<lparr>edges := (edges m)(i := None),
                 vertices :=
                   (case vertices m (edge_from e) of
                      None \<Rightarrow> vertices m
                    | Some vert \<Rightarrow>
                        (vertices m)(edge_from e \<mapsto>
                           vert\<lparr>outgoing_edges := removeAll i (outgoing_edges vert)\<rparr>))\<rparr>))"

subsection \<open>Edge quality inspection\<close>

text \<open>
  The body of the range-for of \<^verbatim>\<open>hasGoodLoopClosureEdgeFromAToB\<close>. The state is the flag
  \<^verbatim>\<open>has_good_edge\<close> and the deletion set, a duplicate-free list. The lookup in the edge
  store is \<^verbatim>\<open>CHECK(map.hasEdge(edge_id))\<close> followed by \<^verbatim>\<open>getEdgeAs\<close>; the comparison of
  the source vertex is the \<^verbatim>\<open>CHECK_EQ\<close>.
\<close>

fun edge_loop ::
  "SelectionConfig \<Rightarrow> VIMap \<Rightarrow> VertexId \<Rightarrow> VertexId \<Rightarrow> EdgeId list \<Rightarrow> bool \<times> EdgeId list \<Rightarrow>
   error + (bool \<times> EdgeId list)" where
  "edge_loop config m a b [] st = Inr st"
| "edge_loop config m a b (i # is) (has_good_edge, del) =
     (case edges m i of
        None \<Rightarrow> Inl CheckFailed
      | Some edge \<Rightarrow>
          if edge_from edge \<noteq> a then Inl CheckFailed
          else if edge_to edge \<noteq> b then edge_loop config m a b is (has_good_edge, del)
          else
            let is_good_edge =
                  double_greater_eq (getSwitchVariable edge)
                    (constraint_min_switch_variable_value config);
                del' =
                  (if (\<not> is_good_edge \<and> recompute_invalid_constraints config) \<or>
                      recompute_all_constraints config
                   then List.insert i del else del)
            in edge_loop config m a b is (has_good_edge \<or> is_good_edge, del'))"

definition hasGoodLoopClosureEdgeFromAToB ::
  "SelectionConfig \<Rightarrow> VIMap \<Rightarrow> VertexId \<Rightarrow> VertexId \<Rightarrow> EdgeId list \<Rightarrow>
   error + (bool \<times> EdgeId list)" where
  "hasGoodLoopClosureEdgeFromAToB config m a b del =
     (case getOutgoingOfType m kLoopClosure a of
        Inl e \<Rightarrow> Inl e
      | Inr outgoing_lc_edges_A \<Rightarrow> edge_loop config m a b outgoing_lc_edges_A (False, del))"

subsection \<open>Quality pass\<close>

text \<open>
  The initialiser of \<^verbatim>\<open>has_good_lc_edge\<close>: the second call is made only when the first one
  returned false.
\<close>

definition has_good_lc_edge ::
  "SelectionConfig \<Rightarrow> VIMap \<Rightarrow> AlignmentCandidatePair \<Rightarrow> EdgeId list \<Rightarrow>
   error + (bool \<times> EdgeId list)" where
  "has_good_lc_edge config m alignment del =
     (let vertex_id_B = closest_vertex_id (candidate_B alignment);
          vertex_id_A = closest_vertex_id (candidate_A alignment)
      in case hasGoodLoopClosureEdgeFromAToB config m vertex_id_A vertex_id_B del of
           Inl e \<Rightarrow> Inl e
         | Inr (g, del1) \<Rightarrow>
             if g then Inr (True, del1)
             else hasGoodLoopClosureEdgeFromAToB config m vertex_id_B vertex_id_A del1)"

text \<open>
  The while loop of the quality pass, from the iterator onwards: it returns the candidates
  that stay and the deletion set.
\<close>

fun quality_loop ::
  "SelectionConfig \<Rightarrow> VIMap \<Rightarrow> EdgeId list \<Rightarrow> AlignmentCandidatePairs \<Rightarrow>
   error + (AlignmentCandidatePairs \<times> EdgeId list)" where
  "quality_loop config m del [] = Inr ([], del)"
| "quality_loop config m del (alignment # rest) =
     (if \<not> isValid alignment then quality_loop config m del rest
      else
        case has_good_lc_edge config m alignment del of
          Inl e \<Rightarrow> Inl e
        | Inr (g, del') \<Rightarrow>
            if g \<and> \<not> recompute_all_constraints config then quality_loop config m del' rest
            else
              (case quality_loop config m del' rest of
                 Inl e \<Rightarrow> Inl e
               | Inr (kept, del'') \<Rightarrow> Inr (alignment # kept, del'')))"

text \<open>
  The range-for over the deletion set. The set is traversed in the order of the list; its
  ids are distinct, so another order removes the same edges.
\<close>

fun remove_edges :: "EdgeId list \<Rightarrow> VIMap \<Rightarrow> error + VIMap" where
  "remove_edges [] m = Inr m"
| "remove_edges (i # is) m =
     (case removeEdge i m of Inl e \<Rightarrow> Inl e | Inr m' \<Rightarrow> remove_edges is m')"

definition filter_candidates_based_on_quality ::
  "SelectionConfig \<Rightarrow> VIMap \<Rightarrow> AlignmentCandidatePairs \<Rightarrow>
   error + (VIMap \<times> AlignmentCandidatePairs)" where
  "filter_candidates_based_on_quality config m candidate_pairs =
     (case quality_loop config m [] candidate_pairs of
        Inl e \<Rightarrow> Inl e
      | Inr (kept, constraints_to_delete_edge_ids) \<Rightarrow>
          if recompute_all_constraints config \<or> recompute_invalid_constraints config
          then (case remove_edges constraints_to_delete_edge_ids m of
                  Inl e \<Rightarrow> Inl e
                | Inr m' \<Rightarrow> Inr (m', kept))
          else Inr (m, kept))"

subsection \<open>Strategy pass\<close>

text \<open>
  The random strategy. The iterators of the collection are the positions \<open>0..<n\<close> of its
  nodes; \<^verbatim>\<open>std::shuffle\<close> with a fresh random engine is the parameter \<open>shuffle\<close>, which
  returns the vector in some order. Erasing through an iterator removes that node and
  leaves the other iterators valid.
\<close>

definition erase_node ::
  "nat \<Rightarrow> (nat \<times> AlignmentCandidatePair) list \<Rightarrow> (nat \<times> AlignmentCandidatePair) list" where
  "erase_node it nodes = filter (\<lambda>node. fst node \<noteq> it) nodes"

definition filter_candidates_randomly ::
  "(nat list \<Rightarrow> nat list) \<Rightarrow> nat \<Rightarrow> AlignmentCandidatePairs \<Rightarrow> AlignmentCandidatePairs" where
  "filter_candidates_randomly shuffle max_number candidate_pairs =
     (let n_candidates = length candidate_pairs;
          v = shuffle [0..<n_candidates];
          n_candidates_to_delete = n_candidates - min n_candidates max_number
      in map snd
           (fold erase_node (take n_candidates_to_delete v)
              (zip [0..<n_candidates] candidate_pairs)))"

text \<open>
  The while loop of the distance strategy. \<^verbatim>\<open>(position_A - p_M_I).norm()\<close> is computed by
  the Eigen library in double arithmetic, with its rounding and its overflow; the value it
  returns for two positions is the parameter \<open>norm_of_difference\<close>. The iterator splits
  the collection into the candidates before it (\<open>left\<close>, all kept) and those from it
  onwards. The result is the final state: the accepted positions, the part before the
  iterator and the part from the iterator onwards, which is empty unless the loop left
  through \<^verbatim>\<open>break\<close>.
\<close>

fun distance_loop ::
  "(Vector3d \<Rightarrow> Vector3d \<Rightarrow> double) \<Rightarrow> nat \<Rightarrow> double \<Rightarrow> VIMap \<Rightarrow> Vector3d list \<Rightarrow>
   AlignmentCandidatePairs \<Rightarrow>
   AlignmentCandidatePairs \<Rightarrow>
   error + (Vector3d list \<times> AlignmentCandidatePairs \<times> AlignmentCandidatePairs)" where
  "distance_loop norm_of_difference max_number min_distance m candidate_positions left [] =
     Inr (candidate_positions, left, [])"
| "distance_loop norm_of_difference max_number min_distance m candidate_positions left (alignment # rest) =
     (case getVertex m (closest_vertex_id (candidate_A alignment)) of
        Inl e \<Rightarrow> Inl e
      | Inr vertex_A \<Rightarrow>
          let position_A = get_p_M_I vertex_A;
              valid_candidate =
                list_all
                  (\<lambda>p_M_I. double_greater (norm_of_difference position_A p_M_I) min_distance)
                  candidate_positions
          in if valid_candidate then
               let candidate_positions' = candidate_positions @ [position_A]
               in if length candidate_positions' \<ge> max_number
                  then Inr (candidate_positions', left, alignment # rest)
                  else distance_loop norm_of_difference max_number min_distance m candidate_positions'
                         (left @ [alignment]) rest
             else distance_loop norm_of_difference max_number min_distance m candidate_positions left rest)"

definition filter_candidates_based_on_distance ::
  "(Vector3d \<Rightarrow> Vector3d \<Rightarrow> double) \<Rightarrow> nat \<Rightarrow> double \<Rightarrow> VIMap \<Rightarrow>
   AlignmentCandidatePairs \<Rightarrow> error + AlignmentCandidatePairs" where
  "filter_candidates_based_on_distance norm_of_difference max_number min_distance m candidate_pairs =
     (case distance_loop norm_of_difference max_number min_distance m [] [] candidate_pairs of
        Inl e \<Rightarrow> Inl e
      | Inr (candidate_positions, left, from_it) \<Rightarrow> Inr (left @ from_it))"

text \<open>
  The strategy pass returns the diagnostic lines it logged and the collection. The
  configuration value is signed; past the guard it is not negative, so its conversion to
  \<^verbatim>\<open>std::size_t\<close> keeps its value.
\<close>

definition filter_candidates_based_on_strategy ::
  "(Vector3d \<Rightarrow> Vector3d \<Rightarrow> double) \<Rightarrow> SelectionConfig \<Rightarrow> (nat list \<Rightarrow> nat list) \<Rightarrow>
   VIMap \<Rightarrow> AlignmentCandidatePairs \<Rightarrow>
   error + (string list \<times> AlignmentCandidatePairs)" where
  "filter_candidates_based_on_strategy norm_of_difference config shuffle m candidate_pairs =
     (if max_number_of_candidates config < 0 then Inr ([], candidate_pairs)
      else if filter_strategy config = ''random'' then
        Inr ([], filter_candidates_randomly shuffle (nat (max_number_of_candidates config))
                   candidate_pairs)
      else if filter_strategy config = ''distance'' then
        (case filter_candidates_based_on_distance norm_of_difference (nat (max_number_of_candidates config))
                (min_distance_to_next_candidate config) m candidate_pairs of
           Inl e \<Rightarrow> Inl e
         | Inr kept \<Rightarrow> Inr ([], kept))
      else Inr ([''Unknown filter strategy '' @ filter_strategy config], candidate_pairs))"

subsection \<open>Orchestrator\<close>

definition selectAlignmentCandidatePairs ::
  "(Vector3d \<Rightarrow> Vector3d \<Rightarrow> double) \<Rightarrow> SelectionConfig \<Rightarrow> (nat list \<Rightarrow> nat list) \<Rightarrow>
   VIMap \<Rightarrow> AlignmentCandidatePairs \<Rightarrow>
   error + (bool \<times> VIMap \<times> string list \<times> AlignmentCandidatePairs)" where
  "selectAlignmentCandidatePairs norm_of_difference config shuffle m candidate_pairs =
     (case filter_candidates_based_on_quality config m candidate_pairs of
        Inl e \<Rightarrow> Inl e
      | Inr (m', kept) \<Rightarrow>
          (case filter_candidates_based_on_strategy norm_of_difference config shuffle m' kept of
             Inl e \<Rightarrow> Inl e
           | Inr (diagnostics, kept') \<Rightarrow> Inr (True, m', diagnostics, kept')))"

subsection \<open>Vocabulary of the properties\<close>

text \<open>
  The list that \<open>getOutgoingOfType\<close> returns for loop closures, and the condition under which
  the checks of the edge loop pass at a vertex: the vertex exists and every loop-closure
  edge it lists as outgoing starts at it.
\<close>

definition lc_outgoing :: "VIMap \<Rightarrow> VertexId \<Rightarrow> EdgeId list" where
  "lc_outgoing m v =
     (case vertices m v of
        None \<Rightarrow> []
      | Some vert \<Rightarrow>
          filter (\<lambda>i. case edges m i of None \<Rightarrow> False | Some e \<Rightarrow> edge_type e = kLoopClosure)
            (outgoing_edges vert))"

definition vertex_ok :: "VIMap \<Rightarrow> VertexId \<Rightarrow> bool" where
  "vertex_ok m v =
     (case vertices m v of
        None \<Rightarrow> False
      | Some vert \<Rightarrow>
          list_all (\<lambda>i. case edges m i of
                          None \<Rightarrow> True
                        | Some e \<Rightarrow> edge_type e = kLoopClosure \<longrightarrow> edge_from e = v)
            (outgoing_edges vert))"

definition pair_ok :: "VIMap \<Rightarrow> AlignmentCandidatePair \<Rightarrow> bool" where
  "pair_ok m c =
     (vertex_ok m (closest_vertex_id (candidate_A c)) \<and>
      vertex_ok m (closest_vertex_id (candidate_B c)))"

definition candidates_ok :: "VIMap \<Rightarrow> AlignmentCandidatePairs \<Rightarrow> bool" where
  "candidates_ok m cs = list_all (\<lambda>c. isValid c \<longrightarrow> pair_ok m c) cs"

definition is_good_edge :: "SelectionConfig \<Rightarrow> Edge \<Rightarrow> bool" where
  "is_good_edge config e =
     (double_greater_eq (getSwitchVariable e) (constraint_min_switch_variable_value config))"

definition good_to :: "SelectionConfig \<Rightarrow> VIMap \<Rightarrow> VertexId \<Rightarrow> EdgeId \<Rightarrow> bool" where
  "good_to config m b i =
     (case edges m i of None \<Rightarrow> False | Some e \<Rightarrow> edge_to e = b \<and> is_good_edge config e)"

definition good_from_to :: "SelectionConfig \<Rightarrow> VIMap \<Rightarrow> VertexId \<Rightarrow> VertexId \<Rightarrow> bool" where
  "good_from_to config m a b = list_ex (good_to config m b) (lc_outgoing m a)"

definition good_between :: "SelectionConfig \<Rightarrow> VIMap \<Rightarrow> AlignmentCandidatePair \<Rightarrow> bool" where
  "good_between config m c =
     (good_from_to config m (closest_vertex_id (candidate_A c))
        (closest_vertex_id (candidate_B c)) \<or>
      good_from_to config m (closest_vertex_id (candidate_B c))
        (closest_vertex_id (candidate_A c)))"

text \<open>An edge from \<open>a\<close> to \<open>b\<close> that the edge loop puts into the deletion set.\<close>

definition marked :: "SelectionConfig \<Rightarrow> VIMap \<Rightarrow> VertexId \<Rightarrow> VertexId \<Rightarrow> EdgeId \<Rightarrow> bool" where
  "marked config m a b i =
     (case edges m i of
        None \<Rightarrow> False
      | Some e \<Rightarrow>
          edge_type e = kLoopClosure \<and> edge_from e = a \<and> edge_to e = b \<and>
          ((\<not> is_good_edge config e \<and> recompute_invalid_constraints config) \<or>
           recompute_all_constraints config))"

definition marked_between ::
  "SelectionConfig \<Rightarrow> VIMap \<Rightarrow> AlignmentCandidatePair \<Rightarrow> EdgeId \<Rightarrow> bool" where
  "marked_between config m c i =
     (marked config m (closest_vertex_id (candidate_A c)) (closest_vertex_id (candidate_B c)) i \<or>
      marked config m (closest_vertex_id (candidate_B c)) (closest_vertex_id (candidate_A c)) i)"

definition stays :: "SelectionConfig \<Rightarrow> VIMap \<Rightarrow> AlignmentCandidatePair \<Rightarrow> bool" where
  "stays config m c =
     (isValid c \<and> (recompute_all_constraints config \<or> \<not> good_between config m c))"

text \<open>The position the distance strategy reads for a candidate, when its vertex exists.\<close>

definition position_A :: "VIMap \<Rightarrow> AlignmentCandidatePair \<Rightarrow> Vector3d option" where
  "position_A m c = map_option get_p_M_I (vertices m (closest_vertex_id (candidate_A c)))"

text \<open>
  Every later position of the list is farther than \<open>d\<close> from every earlier one: the norm
  of their difference, as the arithmetic returns it, compares greater than \<open>d\<close>.
\<close>

fun far_apart ::
  "(Vector3d \<Rightarrow> Vector3d \<Rightarrow> double) \<Rightarrow> double \<Rightarrow> Vector3d list \<Rightarrow> bool" where
  "far_apart norm_of_difference d [] = True"
| "far_apart norm_of_difference d (p # ps) =
     (list_all (\<lambda>q. double_greater (norm_of_difference q p) d) ps \<and>
      far_apart norm_of_difference d ps)"

subsection \<open>Example data\<close>

definition point :: "real \<Rightarrow> real \<Rightarrow> real \<Rightarrow> Vector3d" where
  "point x y z = (Finite x, Finite y, Finite z)"

text \<open>
  An arithmetic for the examples: the norm of the difference of two finite positions
  without rounding and without overflow. Where it is compared with a threshold in the
  examples below, double arithmetic gives the same answer.
\<close>

definition exact_norm_of_difference :: "Vector3d \<Rightarrow> Vector3d \<Rightarrow> double" where
  "exact_norm_of_difference a b =
     (case (a, b) of
        ((Finite x1, Finite y1, Finite z1), (Finite x2, Finite y2, Finite z2)) \<Rightarrow>
          Finite (sqrt ((x1 - x2) * (x1 - x2) + (y1 - y2) * (y1 - y2) + (z1 - z2) * (z1 - z2)))
      | _ \<Rightarrow> NaN)"

text \<open>
  The same arithmetic with the overflow of a \<^verbatim>\<open>double\<close>: a sum of squares of \<open>2 ^ 1024\<close> or
  more is an infinity, and so is its square root.
\<close>

definition overflowing_norm_of_difference :: "Vector3d \<Rightarrow> Vector3d \<Rightarrow> double" where
  "overflowing_norm_of_difference a b =
     (case exact_norm_of_difference a b of
        Finite r \<Rightarrow> if 2 ^ 1024 \<le> r * r then PlusInfinity else Finite r
      | other \<Rightarrow> other)"

definition vertex_at :: "Vector3d \<Rightarrow> EdgeId list \<Rightarrow> Vertex" where
  "vertex_at p out = \<lparr>get_p_M_I = p, outgoing_edges = out\<rparr>"

definition pair_of :: "VertexId \<Rightarrow> VertexId \<Rightarrow> AlignmentCandidatePair" where
  "pair_of a b =
     \<lparr>candidate_A = \<lparr>closest_vertex_id = a\<rparr>, candidate_B = \<lparr>closest_vertex_id = b\<rparr>,
      isValid = True\<rparr>"

definition lc_edge :: "VertexId \<Rightarrow> VertexId \<Rightarrow> double \<Rightarrow> Edge" where
  "lc_edge a b s = \<lparr>edge_type = kLoopClosure, edge_from = a, edge_to = b, getSwitchVariable = s\<rparr>"

text \<open>
  The map of the end-to-end example: the five positions of the \<open>A\<close> sides at the vertices
  \<open>0\<close> to \<open>4\<close>, one more vertex for the \<open>B\<close> sides, and no edge.
\<close>

definition line_map :: VIMap where
  "line_map =
     \<lparr>vertices =
        [0 \<mapsto> vertex_at (point 0 0 0) [], 1 \<mapsto> vertex_at (point 1 0 0) [],
         2 \<mapsto> vertex_at (point 5 0 0) [], 3 \<mapsto> vertex_at (point 5 1 0) [],
         4 \<mapsto> vertex_at (point 10 0 0) [], 5 \<mapsto> vertex_at (point 0 0 7) []],
      edges = Map.empty\<rparr>"

definition line_candidates :: AlignmentCandidatePairs where
  "line_candidates = [pair_of 0 5, pair_of 1 5, pair_of 2 5, pair_of 3 5, pair_of 4 5]"

definition line_config :: SelectionConfig where
  "line_config =
     \<lparr>recompute_all_constraints = False, recompute_invalid_constraints = False,
      constraint_min_switch_variable_value = Finite (1 / 2), max_number_of_candidates = 3,
      filter_strategy = ''distance'', min_distance_to_next_candidate = Finite 2\<rparr>"

text \<open>
  A map with loop closures: a good and a bad edge leave vertex \<open>0\<close>, a bad one leaves
  vertex \<open>1\<close>.
\<close>

definition lc_map :: VIMap where
  "lc_map =
     \<lparr>vertices =
        [0 \<mapsto> vertex_at (point 0 0 0) [0, 1], 1 \<mapsto> vertex_at (point 3 0 0) [2],
         2 \<mapsto> vertex_at (point 6 0 0) []],
      edges =
        [0 \<mapsto> lc_edge 0 1 (Finite (3 / 4)), 1 \<mapsto> lc_edge 0 2 (Finite (1 / 4)),
         2 \<mapsto> lc_edge 1 0 (Finite (1 / 8))]\<rparr>"

text \<open>A map whose one loop closure, from vertex \<open>0\<close> to vertex \<open>1\<close>, has a NaN switch variable.\<close>

definition nan_map :: VIMap where
  "nan_map =
     \<lparr>vertices = [0 \<mapsto> vertex_at (point 0 0 0) [0], 1 \<mapsto> vertex_at (point 3 0 0) []],
      edges = [0 \<mapsto> lc_edge 0 1 NaN]\<rparr>"

text \<open>Two vertices \<open>2 ^ 700\<close> apart.\<close>

definition far_map :: VIMap where
  "far_map =
     \<lparr>vertices = [0 \<mapsto> vertex_at (point 0 0 0) [], 1 \<mapsto> vertex_at (point (2 ^ 700) 0 0) []],
      edges = Map.empty\<rparr>"

definition lc_config :: SelectionConfig where
  "lc_config =
     \<lparr>recompute_all_constraints = False, recompute_invalid_constraints = True,
      constraint_min_switch_variable_value = Finite (1 / 2), max_number_of_candidates = - 1,
      filter_strategy = ''distance'', min_distance_to_next_candidate = Finite 2\<rparr>"

section \<open>Verification\<close>

subsection \<open>Evaluation of the examples\<close>

lemma sqrt_greater:
  assumes "0 \<le> d"
  shows "(d < sqrt s) = (d * d < s)"
proof -
  have "d = sqrt (d * d)" using assms by simp
  then have "(d < sqrt s) = (sqrt (d * d) < sqrt s)" by simp
  also have "\<dots> = (d * d < s)" by (rule real_sqrt_less_iff)
  finally show ?thesis .
qed

lemma exact_norm_of_difference_point:
  "exact_norm_of_difference (point x1 y1 z1) (point x2 y2 z2) =
     Finite (sqrt ((x1 - x2) * (x1 - x2) + (y1 - y2) * (y1 - y2) + (z1 - z2) * (z1 - z2)))"
  by (simp add: exact_norm_of_difference_def point_def)

lemma exact_norm_greater:
  assumes "0 \<le> d"
  shows "double_greater (exact_norm_of_difference (point x1 y1 z1) (point x2 y2 z2)) (Finite d) =
     (d * d < (x1 - x2) * (x1 - x2) + (y1 - y2) * (y1 - y2) + (z1 - z2) * (z1 - z2))"
  by (simp add: exact_norm_of_difference_point sqrt_greater[OF assms])

lemmas example_defs = line_map_def line_candidates_def line_config_def vertex_at_def
  pair_of_def lc_edge_def lc_map_def lc_config_def nan_map_def far_map_def

lemmas quality_defs = filter_candidates_based_on_quality_def has_good_lc_edge_def
  hasGoodLoopClosureEdgeFromAToB_def getOutgoingOfType_def getVertex_def removeEdge_def

lemmas strategy_defs = filter_candidates_based_on_strategy_def
  filter_candidates_based_on_distance_def filter_candidates_randomly_def erase_node_def
  getVertex_def

subsection \<open>Edge quality inspection\<close>

lemma edge_loop_result:
  assumes "\<forall>i\<in>set is. \<exists>e. edges m i = Some e \<and> edge_type e = kLoopClosure \<and> edge_from e = a"
  shows "\<exists>del'. edge_loop config m a b is (g, del) =
            Inr (g \<or> (\<exists>i\<in>set is. good_to config m b i), del') \<and>
          set del' = set del \<union> {i \<in> set is. marked config m a b i} \<and>
          (distinct del \<longrightarrow> distinct del')"
  using assms
proof (induction "is" arbitrary: g del)
  case Nil
  then show ?case by simp
next
  case (Cons i "is")
  from Cons.prems obtain e where e: "edges m i = Some e" "edge_type e = kLoopClosure" "edge_from e = a"
    by auto
  have rest: "\<forall>i\<in>set is. \<exists>e. edges m i = Some e \<and> edge_type e = kLoopClosure \<and> edge_from e = a"
    using Cons.prems by simp
  show ?case
  proof (cases "edge_to e = b")
    case False
    with e Cons.IH[OF rest, of g del] show ?thesis
      by (auto simp: good_to_def marked_def)
  next
    case True
    let ?good = "is_good_edge config e"
    let ?del = "if (\<not> ?good \<and> recompute_invalid_constraints config) \<or> recompute_all_constraints config
                then List.insert i del else del"
    from Cons.IH[OF rest, of "g \<or> ?good" ?del] obtain del' where
      d: "edge_loop config m a b is (g \<or> ?good, ?del) =
            Inr ((g \<or> ?good) \<or> (\<exists>i\<in>set is. good_to config m b i), del')"
         "set del' = set ?del \<union> {i \<in> set is. marked config m a b i}"
         "distinct ?del \<longrightarrow> distinct del'"
      by blast
    have step: "edge_loop config m a b (i # is) (g, del) = edge_loop config m a b is (g \<or> ?good, ?del)"
      using e True by (simp add: is_good_edge_def Let_def)
    have g: "((g \<or> ?good) \<or> (\<exists>i\<in>set is. good_to config m b i)) =
             (g \<or> (\<exists>j\<in>set (i # is). good_to config m b j))"
      using e True by (auto simp: good_to_def)
    have s: "set ?del \<union> {i \<in> set is. marked config m a b i} =
             set del \<union> {j \<in> set (i # is). marked config m a b j}"
      using e True by (auto simp: marked_def)
    have dd: "distinct del \<longrightarrow> distinct ?del" by simp
    show ?thesis
      using d step g s dd by auto
  qed
qed

lemma getOutgoingOfType_ok:
  "vertex_ok m a \<Longrightarrow> getOutgoingOfType m kLoopClosure a = Inr (lc_outgoing m a)"
  by (auto simp: vertex_ok_def getOutgoingOfType_def getVertex_def lc_outgoing_def
           split: option.splits)

lemma lc_outgoing_edges:
  assumes "vertex_ok m a" "i \<in> set (lc_outgoing m a)"
  shows "\<exists>e. edges m i = Some e \<and> edge_type e = kLoopClosure \<and> edge_from e = a"
  using assms
  by (auto simp: vertex_ok_def lc_outgoing_def list_all_iff split: option.splits)

lemma hasGood_result:
  assumes "vertex_ok m a"
  shows "\<exists>del'. hasGoodLoopClosureEdgeFromAToB config m a b del =
            Inr (good_from_to config m a b, del') \<and>
          set del' = set del \<union> {i \<in> set (lc_outgoing m a). marked config m a b i} \<and>
          (distinct del \<longrightarrow> distinct del')"
proof -
  have "\<forall>i\<in>set (lc_outgoing m a).
          \<exists>e. edges m i = Some e \<and> edge_type e = kLoopClosure \<and> edge_from e = a"
    using lc_outgoing_edges[OF assms] by blast
  from edge_loop_result[OF this, of config b False del]
  show ?thesis
    by (simp add: hasGoodLoopClosureEdgeFromAToB_def getOutgoingOfType_ok[OF assms]
          good_from_to_def list_ex_iff)
qed

text \<open>
  C8. At a vertex \<open>a\<close> that exists (and whose listed loop closures start at it, so that the
  checks pass) the inspector returns, and its flag is true exactly when some loop-closure
  edge outgoing from \<open>a\<close> has \<open>b\<close> as its target and a switch variable at or above the
  threshold. Edges to other targets do not occur in the condition.
\<close>

theorem hasGoodLoopClosureEdgeFromAToB_iff:
  assumes "vertex_ok m a"
  shows "\<exists>del'. hasGoodLoopClosureEdgeFromAToB config m a b del =
           Inr ((\<exists>i\<in>set (lc_outgoing m a). \<exists>e. edges m i = Some e \<and> edge_to e = b \<and>
                   double_greater_eq (getSwitchVariable e) (constraint_min_switch_variable_value config)),
                del')"
proof -
  have "good_from_to config m a b =
        (\<exists>i\<in>set (lc_outgoing m a). \<exists>e. edges m i = Some e \<and> edge_to e = b \<and>
            double_greater_eq (getSwitchVariable e) (constraint_min_switch_variable_value config))"
    by (auto simp: good_from_to_def list_ex_iff good_to_def is_good_edge_def
             split: option.splits)
  with hasGood_result[OF assms, of config b del] show ?thesis by auto
qed

theorem hasGoodLoopClosureEdgeFromAToB_iff_witness:
  "vertex_ok lc_map 0 \<and>
   (\<exists>del'. hasGoodLoopClosureEdgeFromAToB lc_config lc_map 0 1 [] = Inr (True, del')) \<and>
   (\<exists>del'. hasGoodLoopClosureEdgeFromAToB lc_config lc_map 0 2 [] = Inr (False, del'))"
proof -
  have h: "vertex_ok lc_map 0" by (simp add: vertex_ok_def example_defs)
  have g1: "(\<exists>i\<in>set (lc_outgoing lc_map 0). \<exists>e. edges lc_map i = Some e \<and> edge_to e = 1 \<and>
               double_greater_eq (getSwitchVariable e) (constraint_min_switch_variable_value lc_config)) = True"
    by (simp add: lc_outgoing_def example_defs)
  have g2: "(\<exists>i\<in>set (lc_outgoing lc_map 0). \<exists>e. edges lc_map i = Some e \<and> edge_to e = 2 \<and>
               double_greater_eq (getSwitchVariable e) (constraint_min_switch_variable_value lc_config)) = False"
    by (simp add: lc_outgoing_def example_defs)
  from hasGoodLoopClosureEdgeFromAToB_iff[OF h, of lc_config 1 "[]"]
    hasGoodLoopClosureEdgeFromAToB_iff[OF h, of lc_config 2 "[]"]
  show ?thesis unfolding g1 g2 using h by simp
qed

subsection \<open>Quality pass\<close>

lemma has_good_lc_edge_result:
  assumes "pair_ok m c"
  shows "\<exists>del'. has_good_lc_edge config m c del = Inr (good_between config m c, del') \<and>
          set del \<subseteq> set del' \<and>
          set del' \<subseteq> set del \<union> {i. marked_between config m c i} \<and>
          (distinct del \<longrightarrow> distinct del')"
proof -
  let ?a = "closest_vertex_id (candidate_A c)" and ?b = "closest_vertex_id (candidate_B c)"
  from assms have oa: "vertex_ok m ?a" and ob: "vertex_ok m ?b"
    by (simp_all add: pair_ok_def)
  from hasGood_result[OF oa, of config ?b del] obtain d1 where
    d1: "hasGoodLoopClosureEdgeFromAToB config m ?a ?b del = Inr (good_from_to config m ?a ?b, d1)"
        "set d1 = set del \<union> {i \<in> set (lc_outgoing m ?a). marked config m ?a ?b i}"
        "distinct del \<longrightarrow> distinct d1"
    by blast
  from hasGood_result[OF ob, of config ?a d1] obtain d2 where
    d2: "hasGoodLoopClosureEdgeFromAToB config m ?b ?a d1 = Inr (good_from_to config m ?b ?a, d2)"
        "set d2 = set d1 \<union> {i \<in> set (lc_outgoing m ?b). marked config m ?b ?a i}"
        "distinct d1 \<longrightarrow> distinct d2"
    by blast
  show ?thesis
  proof (cases "good_from_to config m ?a ?b")
    case True
    then have "has_good_lc_edge config m c del = Inr (good_between config m c, d1)"
      using d1(1) by (simp add: has_good_lc_edge_def good_between_def)
    then show ?thesis using d1(2,3) by (auto simp: marked_between_def)
  next
    case False
    then have "has_good_lc_edge config m c del = Inr (good_between config m c, d2)"
      using d1(1) d2(1) by (simp add: has_good_lc_edge_def good_between_def)
    then show ?thesis using d1(2,3) d2(2,3) by (auto simp: marked_between_def)
  qed
qed

lemma quality_loop_result:
  assumes "\<forall>c\<in>set cs. isValid c \<longrightarrow> pair_ok m c"
  shows "\<exists>del'. quality_loop config m del cs = Inr (filter (stays config m) cs, del') \<and>
          set del \<subseteq> set del' \<and>
          set del' \<subseteq> set del \<union> {i. \<exists>c\<in>set cs. isValid c \<and> marked_between config m c i} \<and>
          (distinct del \<longrightarrow> distinct del')"
  using assms
proof (induction cs arbitrary: del)
  case Nil
  then show ?case by simp
next
  case (Cons c cs)
  have rest: "\<forall>c\<in>set cs. isValid c \<longrightarrow> pair_ok m c" using Cons.prems by simp
  show ?case
  proof (cases "isValid c")
    case False
    from Cons.IH[OF rest, of del] obtain d where
      d: "quality_loop config m del cs = Inr (filter (stays config m) cs, d)"
         "set del \<subseteq> set d"
         "set d \<subseteq> set del \<union> {i. \<exists>c\<in>set cs. isValid c \<and> marked_between config m c i}"
         "distinct del \<longrightarrow> distinct d"
      by blast
    have "quality_loop config m del (c # cs) = Inr (filter (stays config m) (c # cs), d)"
      using False d(1) by (simp add: stays_def)
    then show ?thesis using d(2,3,4) by auto
  next
    case True
    then have "pair_ok m c" using Cons.prems by simp
    from has_good_lc_edge_result[OF this, of config del] obtain d1 where
      d1: "has_good_lc_edge config m c del = Inr (good_between config m c, d1)"
          "set del \<subseteq> set d1"
          "set d1 \<subseteq> set del \<union> {i. marked_between config m c i}"
          "distinct del \<longrightarrow> distinct d1"
      by blast
    from Cons.IH[OF rest, of d1] obtain d where
      d: "quality_loop config m d1 cs = Inr (filter (stays config m) cs, d)"
         "set d1 \<subseteq> set d"
         "set d \<subseteq> set d1 \<union> {i. \<exists>c\<in>set cs. isValid c \<and> marked_between config m c i}"
         "distinct d1 \<longrightarrow> distinct d"
      by blast
    have "quality_loop config m del (c # cs) = Inr (filter (stays config m) (c # cs), d)"
      using True d1(1) d(1) by (simp add: stays_def)
    moreover have "set del \<subseteq> set d" using d1(2) d(2) by blast
    moreover have "set d \<subseteq> set del \<union> {i. \<exists>c'\<in>set (c # cs). isValid c' \<and> marked_between config m c' i}"
      using d1(3) d(3) True by auto
    moreover have "distinct del \<longrightarrow> distinct d" using d1(4) d(4) by blast
    ultimately show ?thesis by blast
  qed
qed

lemma removeEdge_edges:
  "edges m i = Some e \<Longrightarrow> \<exists>m'. removeEdge i m = Inr m' \<and> edges m' = (edges m)(i := None)"
  by (simp add: removeEdge_def)

lemma remove_edges_result:
  assumes "distinct del" "\<forall>i\<in>set del. edges m i \<noteq> None"
  shows "\<exists>m'. remove_edges del m = Inr m' \<and>
           edges m' = (\<lambda>i. if i \<in> set del then None else edges m i)"
  using assms
proof (induction del arbitrary: m)
  case Nil
  then show ?case by simp
next
  case (Cons i del)
  from Cons.prems obtain e where "edges m i = Some e" by auto
  from removeEdge_edges[OF this] obtain m1 where
    m1: "removeEdge i m = Inr m1" "edges m1 = (edges m)(i := None)" by blast
  have "distinct del" "\<forall>j\<in>set del. edges m1 j \<noteq> None"
    using Cons.prems m1(2) by auto
  from Cons.IH[OF this] obtain m' where
    m': "remove_edges del m1 = Inr m'"
        "edges m' = (\<lambda>j. if j \<in> set del then None else edges m1 j)" by blast
  have "remove_edges (i # del) m = Inr m'" using m1(1) m'(1) by simp
  moreover have "edges m' = (\<lambda>j. if j \<in> set (i # del) then None else edges m j)"
    using m'(2) m1(2) by auto
  ultimately show ?case by blast
qed

lemma marked_between_edge:
  assumes "marked_between config m c i"
  shows "\<exists>e. edges m i = Some e \<and> edge_type e = kLoopClosure \<and>
           ((\<not> is_good_edge config e \<and> recompute_invalid_constraints config) \<or>
            recompute_all_constraints config) \<and>
           ((edge_from e = closest_vertex_id (candidate_A c) \<and>
             edge_to e = closest_vertex_id (candidate_B c)) \<or>
            (edge_from e = closest_vertex_id (candidate_B c) \<and>
             edge_to e = closest_vertex_id (candidate_A c)))"
  using assms by (auto simp: marked_between_def marked_def split: option.splits)

text \<open>
  The quality pass as a whole, on a graph where the checks pass for every valid candidate:
  it returns, the candidates that stay are computed by \<open>stays\<close>, and an edge either is as
  before or is gone and was marked between the two vertices of a valid candidate.
\<close>

lemma quality_pass_result:
  assumes "candidates_ok m cs"
  shows "\<exists>m'. filter_candidates_based_on_quality config m cs =
                 Inr (m', filter (stays config m) cs) \<and>
           (\<forall>i. edges m' i = edges m i \<or>
                (edges m' i = None \<and>
                 (\<exists>c\<in>set cs. isValid c \<and> marked_between config m c i)))"
proof -
  have ok: "\<forall>c\<in>set cs. isValid c \<longrightarrow> pair_ok m c"
    using assms by (simp add: candidates_ok_def list_all_iff)
  from quality_loop_result[OF ok, of config "[]"] obtain del where
    del: "quality_loop config m [] cs = Inr (filter (stays config m) cs, del)"
         "set del \<subseteq> {i. \<exists>c\<in>set cs. isValid c \<and> marked_between config m c i}"
         "distinct del"
    by auto
  show ?thesis
  proof (cases "recompute_all_constraints config \<or> recompute_invalid_constraints config")
    case False
    then have "filter_candidates_based_on_quality config m cs =
               Inr (m, filter (stays config m) cs)"
      using del(1) by (simp add: filter_candidates_based_on_quality_def)
    then show ?thesis by blast
  next
    case True
    have "\<forall>i\<in>set del. edges m i \<noteq> None"
      using del(2) marked_between_edge by blast
    from remove_edges_result[OF del(3) this] obtain m' where
      m': "remove_edges del m = Inr m'"
          "edges m' = (\<lambda>i. if i \<in> set del then None else edges m i)"
      by blast
    have "filter_candidates_based_on_quality config m cs =
          Inr (m', filter (stays config m) cs)"
      using True del(1) m'(1) by (simp add: filter_candidates_based_on_quality_def)
    moreover have "\<forall>i. edges m' i = edges m i \<or>
                (edges m' i = None \<and>
                 (\<exists>c\<in>set cs. isValid c \<and> marked_between config m c i))"
      using m'(2) del(2) by auto
    ultimately show ?thesis by blast
  qed
qed

lemma good_edge_found:
  assumes "edges m i = Some e" "edge_type e = kLoopClosure"
    and "vertices m (edge_from e) = Some vert" "i \<in> set (outgoing_edges vert)"
    and "double_greater_eq (getSwitchVariable e) (constraint_min_switch_variable_value config)"
  shows "good_from_to config m (edge_from e) (edge_to e)"
  using assms
  by (auto simp: good_from_to_def list_ex_iff lc_outgoing_def good_to_def is_good_edge_def)

text \<open>
  C3. Let the checks pass for every valid candidate of the collection, and let
  \<^verbatim>\<open>recompute_all_constraints\<close> be false. If a valid candidate \<open>c\<close> of the collection has a
  loop-closure edge of the graph (stored under \<open>i\<close> and listed by its source vertex) between
  its two vertices, in either direction, with a switch variable at or above the threshold,
  then the quality pass returns and \<open>c\<close> is not in the collection any more.
\<close>

theorem good_edge_removes_candidate:
  assumes "\<not> recompute_all_constraints config"
    and "candidates_ok m cs"
    and "c \<in> set cs" "isValid c"
    and "edges m i = Some e" "edge_type e = kLoopClosure"
    and "vertices m (edge_from e) = Some vert" "i \<in> set (outgoing_edges vert)"
    and "(edge_from e = closest_vertex_id (candidate_A c) \<and>
          edge_to e = closest_vertex_id (candidate_B c)) \<or>
         (edge_from e = closest_vertex_id (candidate_B c) \<and>
          edge_to e = closest_vertex_id (candidate_A c))"
    and "double_greater_eq (getSwitchVariable e) (constraint_min_switch_variable_value config)"
  shows "\<exists>m' kept. filter_candidates_based_on_quality config m cs = Inr (m', kept) \<and>
           c \<notin> set kept"
proof -
  have "good_from_to config m (edge_from e) (edge_to e)"
    using assms(5,6,7,8,10) by (rule good_edge_found)
  then have "good_between config m c"
    using assms(9) by (auto simp: good_between_def)
  then have "\<not> stays config m c"
    using assms(1) by (simp add: stays_def)
  then have "c \<notin> set (filter (stays config m) cs)" by simp
  with quality_pass_result[OF assms(2), of config] show ?thesis by blast
qed

theorem good_edge_removes_candidate_witness:
  "\<not> recompute_all_constraints lc_config \<and>
   candidates_ok lc_map [pair_of 0 1, pair_of 0 2] \<and>
   pair_of 0 1 \<in> set [pair_of 0 1, pair_of 0 2] \<and> isValid (pair_of 0 1) \<and>
   edges lc_map 0 = Some (lc_edge 0 1 (Finite (3 / 4))) \<and>
   edge_type (lc_edge 0 1 (Finite (3 / 4))) = kLoopClosure \<and>
   vertices lc_map (edge_from (lc_edge 0 1 (Finite (3 / 4)))) = Some (vertex_at (point 0 0 0) [0, 1]) \<and>
   0 \<in> set (outgoing_edges (vertex_at (point 0 0 0) [0, 1])) \<and>
   edge_from (lc_edge 0 1 (Finite (3 / 4))) = closest_vertex_id (candidate_A (pair_of 0 1)) \<and>
   edge_to (lc_edge 0 1 (Finite (3 / 4))) = closest_vertex_id (candidate_B (pair_of 0 1)) \<and>
   double_greater_eq (getSwitchVariable (lc_edge 0 1 (Finite (3 / 4)))) (constraint_min_switch_variable_value lc_config) \<and>
   (\<exists>m' kept. filter_candidates_based_on_quality lc_config lc_map
                 [pair_of 0 1, pair_of 0 2] = Inr (m', kept) \<and>
               pair_of 0 1 \<notin> set kept)"
proof -
  let ?e = "lc_edge 0 1 (Finite (3 / 4))" and ?c = "pair_of 0 1" and ?v = "vertex_at (point 0 0 0) [0, 1]"
  have h1: "\<not> recompute_all_constraints lc_config" by (simp add: lc_config_def)
  have h2: "candidates_ok lc_map [pair_of 0 1, pair_of 0 2]"
    by (simp add: candidates_ok_def pair_ok_def vertex_ok_def example_defs)
  have h3: "?c \<in> set [pair_of 0 1, pair_of 0 2]" by simp
  have h4: "isValid ?c" by (simp add: pair_of_def)
  have h5: "edges lc_map 0 = Some ?e" by (simp add: lc_map_def)
  have h6: "edge_type ?e = kLoopClosure" by (simp add: lc_edge_def)
  have h7: "vertices lc_map (edge_from ?e) = Some ?v" by (simp add: lc_map_def lc_edge_def)
  have h8: "0 \<in> set (outgoing_edges ?v)" by (simp add: vertex_at_def)
  have h9: "edge_from ?e = closest_vertex_id (candidate_A ?c) \<and>
            edge_to ?e = closest_vertex_id (candidate_B ?c)"
    by (simp add: lc_edge_def pair_of_def)
  then have h9': "(edge_from ?e = closest_vertex_id (candidate_A ?c) \<and>
            edge_to ?e = closest_vertex_id (candidate_B ?c)) \<or>
           (edge_from ?e = closest_vertex_id (candidate_B ?c) \<and>
            edge_to ?e = closest_vertex_id (candidate_A ?c))" by (rule disjI1)
  have h10: "double_greater_eq (getSwitchVariable ?e) (constraint_min_switch_variable_value lc_config)"
    by (simp add: lc_edge_def lc_config_def)
  from good_edge_removes_candidate[OF h1 h2 h3 h4 h5 h6 h7 h8 h9' h10]
  show ?thesis using h1 h2 h3 h4 h5 h6 h7 h8 h9 h10 by blast
qed

lemma not_greater_eq_iff:
  "(\<not> double_greater_eq a b) = (double_less a b \<or> a = NaN \<or> b = NaN)"
  by (cases a; cases b) auto

text \<open>
  C4 (as amended). Let the checks pass for every valid candidate, with
  \<^verbatim>\<open>recompute_invalid_constraints\<close> true and \<^verbatim>\<open>recompute_all_constraints\<close> false. The
  quality pass returns, and every edge of the graph is either still there unchanged, or it
  is gone and was a loop closure between the two vertices of a valid candidate whose switch
  variable is below the threshold or not ordered with it, one of the two being a NaN. An
  edge whose switch variable is at or above the threshold is still there, and no edge is
  added.
\<close>

theorem only_bad_inspected_edges_removed:
  assumes "recompute_invalid_constraints config"
    and "\<not> recompute_all_constraints config"
    and "candidates_ok m cs"
  shows "\<exists>m' kept. filter_candidates_based_on_quality config m cs = Inr (m', kept) \<and>
           (\<forall>i e. edges m i = Some e \<longrightarrow>
              edges m' i = Some e \<or>
              (edges m' i = None \<and> edge_type e = kLoopClosure \<and>
               (double_less (getSwitchVariable e) (constraint_min_switch_variable_value config) \<or>
                getSwitchVariable e = NaN \<or> constraint_min_switch_variable_value config = NaN) \<and>
               (\<exists>c\<in>set cs. isValid c \<and>
                  ((edge_from e = closest_vertex_id (candidate_A c) \<and>
                    edge_to e = closest_vertex_id (candidate_B c)) \<or>
                   (edge_from e = closest_vertex_id (candidate_B c) \<and>
                    edge_to e = closest_vertex_id (candidate_A c)))))) \<and>
           (\<forall>i e. edges m i = Some e \<and>
              double_greater_eq (getSwitchVariable e)
                (constraint_min_switch_variable_value config) \<longrightarrow>
              edges m' i = Some e) \<and>
           (\<forall>i. edges m i = None \<longrightarrow> edges m' i = None)"
proof -
  let ?below = "\<lambda>e. double_less (getSwitchVariable e) (constraint_min_switch_variable_value config) \<or>
                getSwitchVariable e = NaN \<or> constraint_min_switch_variable_value config = NaN"
  let ?between = "\<lambda>e. \<exists>c\<in>set cs. isValid c \<and>
            ((edge_from e = closest_vertex_id (candidate_A c) \<and>
              edge_to e = closest_vertex_id (candidate_B c)) \<or>
             (edge_from e = closest_vertex_id (candidate_B c) \<and>
              edge_to e = closest_vertex_id (candidate_A c)))"
  from quality_pass_result[OF assms(3), of config] obtain m' where
    res: "filter_candidates_based_on_quality config m cs = Inr (m', filter (stays config m) cs)"
    and fr: "\<forall>i. edges m' i = edges m i \<or>
                (edges m' i = None \<and>
                 (\<exists>c\<in>set cs. isValid c \<and> marked_between config m c i))"
    by blast
  have removed: "edge_type e = kLoopClosure \<and> ?below e \<and> ?between e"
    if e: "edges m i = Some e" and gone: "edges m' i \<noteq> Some e" for i e
  proof -
    from fr e gone obtain c where c: "c \<in> set cs" "isValid c" "marked_between config m c i"
      by metis
    from marked_between_edge[OF c(3)] e assms(2)
    have "edge_type e = kLoopClosure" "\<not> is_good_edge config e"
      "(edge_from e = closest_vertex_id (candidate_A c) \<and>
        edge_to e = closest_vertex_id (candidate_B c)) \<or>
       (edge_from e = closest_vertex_id (candidate_B c) \<and>
        edge_to e = closest_vertex_id (candidate_A c))"
      by auto
    then show ?thesis using c(1,2) by (auto simp: is_good_edge_def not_greater_eq_iff)
  qed
  have gone_none: "edges m' i = None" if "edges m i = Some e" "edges m' i \<noteq> Some e" for i e
    using fr that by metis
  have a: "\<forall>i e. edges m i = Some e \<longrightarrow>
              edges m' i = Some e \<or>
              (edges m' i = None \<and> edge_type e = kLoopClosure \<and> ?below e \<and> ?between e)"
    using removed gone_none by blast
  have b: "\<forall>i e. edges m i = Some e \<and>
              double_greater_eq (getSwitchVariable e)
                (constraint_min_switch_variable_value config) \<longrightarrow>
              edges m' i = Some e"
  proof (intro allI impI)
    fix i e
    assume h: "edges m i = Some e \<and>
              double_greater_eq (getSwitchVariable e) (constraint_min_switch_variable_value config)"
    show "edges m' i = Some e"
    proof (rule ccontr)
      assume "edges m' i \<noteq> Some e"
      with removed h have "?below e" by blast
      with h show False by (simp add: not_greater_eq_iff[symmetric])
    qed
  qed
  have c: "\<forall>i. edges m i = None \<longrightarrow> edges m' i = None"
    using fr by metis
  show ?thesis using res a b c by blast
qed

theorem only_bad_inspected_edges_removed_witness:
  "recompute_invalid_constraints lc_config \<and> \<not> recompute_all_constraints lc_config \<and>
   candidates_ok lc_map [pair_of 0 1, pair_of 0 2] \<and>
   (\<exists>m'. filter_candidates_based_on_quality lc_config lc_map [pair_of 0 1, pair_of 0 2] =
            Inr (m', [pair_of 0 2]) \<and>
          edges m' 0 = Some (lc_edge 0 1 (Finite (3 / 4))) \<and> edges m' 1 = None \<and>
          edges m' 2 = Some (lc_edge 1 0 (Finite (1 / 8))))"
proof -
  have h1: "recompute_invalid_constraints lc_config" by (simp add: lc_config_def)
  have h2: "\<not> recompute_all_constraints lc_config" by (simp add: lc_config_def)
  have h3: "candidates_ok lc_map [pair_of 0 1, pair_of 0 2]"
    by (simp add: candidates_ok_def pair_ok_def vertex_ok_def example_defs)
  from only_bad_inspected_edges_removed[OF h1 h2 h3] obtain m' kept where
    res: "filter_candidates_based_on_quality lc_config lc_map [pair_of 0 1, pair_of 0 2] =
            Inr (m', kept)"
    and good: "\<forall>i e. edges lc_map i = Some e \<and>
              double_greater_eq (getSwitchVariable e) (constraint_min_switch_variable_value lc_config) \<longrightarrow>
              edges m' i = Some e"
    by blast
  have "edges lc_map 0 = Some (lc_edge 0 1 (Finite (3 / 4))) \<and>
        double_greater_eq (getSwitchVariable (lc_edge 0 1 (Finite (3 / 4)))) (constraint_min_switch_variable_value lc_config)"
    by (simp add: example_defs)
  with good have e0: "edges m' 0 = Some (lc_edge 0 1 (Finite (3 / 4)))" by blast
  have ev: "\<exists>m1. filter_candidates_based_on_quality lc_config lc_map [pair_of 0 1, pair_of 0 2] =
            Inr (m1, [pair_of 0 2]) \<and> edges m1 1 = None \<and>
            edges m1 2 = Some (lc_edge 1 0 (Finite (1 / 8)))"
    by (simp add: example_defs quality_defs)
  with res e0 have "filter_candidates_based_on_quality lc_config lc_map [pair_of 0 1, pair_of 0 2] =
            Inr (m', [pair_of 0 2]) \<and>
          edges m' 0 = Some (lc_edge 0 1 (Finite (3 / 4))) \<and> edges m' 1 = None \<and>
          edges m' 2 = Some (lc_edge 1 0 (Finite (1 / 8)))"
    by auto
  with h1 h2 h3 show ?thesis by blast
qed

text \<open>
  C4 as stated, with every removed edge below the threshold, does not hold: the one loop
  closure of \<open>nan_map\<close> has a NaN switch variable, which is not at or above the threshold
  and not below it either; the quality pass removes it.
\<close>

theorem nan_edge_removed:
  "recompute_invalid_constraints lc_config \<and> \<not> recompute_all_constraints lc_config \<and>
   candidates_ok nan_map [pair_of 0 1] \<and>
   \<not> isl (filter_candidates_based_on_quality lc_config nan_map [pair_of 0 1]) \<and>
   edges (fst (projr (filter_candidates_based_on_quality lc_config nan_map [pair_of 0 1]))) 0 =
     None \<and>
   edges nan_map 0 = Some (lc_edge 0 1 NaN) \<and>
   \<not> double_less (getSwitchVariable (lc_edge 0 1 NaN))
       (constraint_min_switch_variable_value lc_config)"
  by (simp add: example_defs quality_defs candidates_ok_def pair_ok_def vertex_ok_def)

subsection \<open>Random strategy\<close>

lemma fold_erase_node:
  "fold erase_node its nodes = filter (\<lambda>node. fst node \<notin> set its) nodes"
proof (induction its arbitrary: nodes)
  case Nil
  then show ?case by simp
next
  case (Cons i its)
  have "fold erase_node (i # its) nodes = fold erase_node its (erase_node i nodes)" by simp
  also have "\<dots> = filter (\<lambda>node. fst node \<notin> set its) (erase_node i nodes)" by (rule Cons.IH)
  also have "\<dots> = filter (\<lambda>node. fst node \<notin> set (i # its)) nodes"
    by (auto simp: erase_node_def intro: filter_cong)
  finally show ?case .
qed

lemma length_filter_zip_upt:
  assumes "length cs = n"
  shows "length (filter (\<lambda>node. fst node \<notin> S) (zip [0..<n] cs)) = card ({0..<n} - S)"
proof -
  have "length (filter (\<lambda>node. fst node \<notin> S) (zip [0..<n] cs)) =
        length (map fst (filter (\<lambda>node. fst node \<notin> S) (zip [0..<n] cs)))" by simp
  also have "map fst (filter (\<lambda>node. fst node \<notin> S) (zip [0..<n] cs)) =
             filter (\<lambda>i. i \<notin> S) (map fst (zip [0..<n] cs))"
    by (simp add: filter_map comp_def)
  also have "map fst (zip [0..<n] cs) = [0..<n]" using assms by simp
  also have "length (filter (\<lambda>i. i \<notin> S) [0..<n]) = card (set (filter (\<lambda>i. i \<notin> S) [0..<n]))"
    by (rule distinct_card[symmetric]) simp
  also have "set (filter (\<lambda>i. i \<notin> S) [0..<n]) = {0..<n} - S" by auto
  finally show ?thesis .
qed

lemma random_length:
  assumes perm: "mset (shuffle [0..<length cs]) = mset [0..<length cs]"
  shows "length (filter_candidates_randomly shuffle k cs) = min (length cs) k"
proof -
  let ?n = "length cs"
  let ?v = "shuffle [0..<?n]"
  let ?nd = "?n - min ?n k"
  let ?S = "set (take ?nd ?v)"
  have len: "length ?v = ?n" using mset_eq_length[OF perm] by simp
  have dist: "distinct ?v" using mset_eq_imp_distinct_iff[OF perm] by simp
  have sub: "set ?v = {0..<?n}" using mset_eq_setD[OF perm] by simp
  have "?S \<subseteq> {0..<?n}" using sub set_take_subset[of ?nd ?v] by blast
  moreover have "card ?S = ?nd"
    using dist len by (simp add: distinct_card distinct_take)
  ultimately have "card ({0..<?n} - ?S) = ?n - ?nd"
    by (simp add: card_Diff_subset finite_subset[of ?S "{0..<?n}"])
  then show ?thesis
    by (simp add: filter_candidates_randomly_def Let_def fold_erase_node length_filter_zip_upt)
qed

lemma random_unchanged:
  "length cs \<le> k \<Longrightarrow> filter_candidates_randomly shuffle k cs = cs"
  by (simp add: filter_candidates_randomly_def Let_def)

lemma random_no_fabrication:
  "mset (filter_candidates_randomly shuffle k cs) \<subseteq># mset cs"
proof -
  let ?n = "length cs"
  let ?S = "set (take (?n - min ?n k) (shuffle [0..<?n]))"
  have "mset (filter_candidates_randomly shuffle k cs) =
        image_mset snd (filter_mset (\<lambda>node. fst node \<notin> ?S) (mset (zip [0..<?n] cs)))"
    by (simp add: filter_candidates_randomly_def Let_def fold_erase_node)
  also have "\<dots> \<subseteq># image_mset snd (mset (zip [0..<?n] cs))"
    by (rule image_mset_subseteq_mono) (rule multiset_filter_subset)
  also have "image_mset snd (mset (zip [0..<?n] cs)) = mset (map snd (zip [0..<?n] cs))"
    by (rule mset_map[symmetric])
  also have "map snd (zip [0..<?n] cs) = cs" by simp
  finally show ?thesis .
qed

text \<open>
  C5. With the random strategy and a cap \<open>k \<ge> 0\<close>, for every order the shuffle may put the
  iterators in: the strategy pass returns; if \<open>k\<close> is below the size of the collection, the
  result has exactly \<open>k\<close> elements; if \<open>k\<close> is at least the size, the collection is unchanged;
  and the result holds no element, and no more copies of one, than the original.
\<close>

theorem random_strategy_cap:
  assumes "filter_strategy config = ''random''"
    and "0 \<le> max_number_of_candidates config"
    and "mset (shuffle [0..<length cs]) = mset [0..<length cs]"
  shows "\<exists>kept. filter_candidates_based_on_strategy norm_of_difference config shuffle m cs = Inr ([], kept) \<and>
           (max_number_of_candidates config < int (length cs) \<longrightarrow>
              int (length kept) = max_number_of_candidates config) \<and>
           (int (length cs) \<le> max_number_of_candidates config \<longrightarrow> kept = cs) \<and>
           mset kept \<subseteq># mset cs"
proof -
  let ?k = "nat (max_number_of_candidates config)"
  let ?kept = "filter_candidates_randomly shuffle ?k cs"
  have "filter_candidates_based_on_strategy norm_of_difference config shuffle m cs = Inr ([], ?kept)"
    using assms(1,2) by (simp add: filter_candidates_based_on_strategy_def)
  moreover have "max_number_of_candidates config < int (length cs) \<longrightarrow>
                 int (length ?kept) = max_number_of_candidates config"
    using random_length[where shuffle = shuffle and cs = cs and k = ?k] assms(2,3) by auto
  moreover have "int (length cs) \<le> max_number_of_candidates config \<longrightarrow> ?kept = cs"
    using random_unchanged[of cs ?k shuffle] assms(2) by auto
  moreover have "mset ?kept \<subseteq># mset cs" by (rule random_no_fabrication)
  ultimately show ?thesis by blast
qed

theorem random_strategy_cap_witness:
  "filter_strategy (line_config\<lparr>filter_strategy := ''random'', max_number_of_candidates := 2\<rparr>) =
     ''random'' \<and>
   0 \<le> max_number_of_candidates
         (line_config\<lparr>filter_strategy := ''random'', max_number_of_candidates := 2\<rparr>) \<and>
   mset (rev [0..<length [pair_of 0 5, pair_of 1 5, pair_of 2 5]]) =
     mset [0..<length [pair_of 0 5, pair_of 1 5, pair_of 2 5]] \<and>
   filter_candidates_based_on_strategy exact_norm_of_difference
     (line_config\<lparr>filter_strategy := ''random'', max_number_of_candidates := 2\<rparr>) rev line_map
     [pair_of 0 5, pair_of 1 5, pair_of 2 5] = Inr ([], [pair_of 0 5, pair_of 1 5])"
proof -
  let ?config = "line_config\<lparr>filter_strategy := ''random'', max_number_of_candidates := 2\<rparr>"
  let ?cs = "[pair_of 0 5, pair_of 1 5, pair_of 2 5]"
  have h1: "filter_strategy ?config = ''random''" by simp
  have h2: "0 \<le> max_number_of_candidates ?config" by simp
  have h3: "mset (rev [0..<length ?cs]) = mset [0..<length ?cs]" by simp
  have up: "[0..<3] = [0, 1, 2]" by (simp add: upt_rec)
  have ev: "filter_candidates_based_on_strategy exact_norm_of_difference ?config rev line_map ?cs =
              Inr ([], [pair_of 0 5, pair_of 1 5])"
    by (simp add: strategy_defs up)
  from random_strategy_cap[where config = ?config and shuffle = rev and cs = ?cs and m = line_map
      and norm_of_difference = exact_norm_of_difference]
  show ?thesis using h1 h2 h3 ev by simp
qed

subsection \<open>Distance strategy\<close>

lemma far_apart_snoc:
  "far_apart norm_of_difference d (ps @ [q]) =
     (far_apart norm_of_difference d ps \<and> list_all (\<lambda>p. double_greater (norm_of_difference q p) d) ps)"
  by (induction ps) auto

lemma far_apart_pairs:
  "far_apart norm_of_difference d ps =
     (\<forall>i j. i < j \<and> j < length ps \<longrightarrow> double_greater (norm_of_difference (ps ! j) (ps ! i)) d)"
proof (induction ps)
  case Nil
  then show ?case by simp
next
  case (Cons p ps)
  show ?case
  proof
    assume a: "far_apart norm_of_difference d (p # ps)"
    show "\<forall>i j. i < j \<and> j < length (p # ps) \<longrightarrow>
            double_greater (norm_of_difference ((p # ps) ! j) ((p # ps) ! i)) d"
    proof (intro allI impI)
      fix i j assume ij: "i < j \<and> j < length (p # ps)"
      then obtain j' where j': "j = Suc j'" "j' < length ps" by (cases j) auto
      show "double_greater (norm_of_difference ((p # ps) ! j) ((p # ps) ! i)) d"
      proof (cases i)
        case 0
        with a j' show ?thesis by (simp add: list_all_length)
      next
        case (Suc i')
        with a j' ij Cons.IH show ?thesis by simp
      qed
    qed
  next
    assume a: "\<forall>i j. i < j \<and> j < length (p # ps) \<longrightarrow>
            double_greater (norm_of_difference ((p # ps) ! j) ((p # ps) ! i)) d"
    have "list_all (\<lambda>q. double_greater (norm_of_difference q p) d) ps"
      unfolding list_all_length
    proof (intro allI impI)
      fix n assume "n < length ps"
      with a[rule_format, of 0 "Suc n"] show "double_greater (norm_of_difference (ps ! n) p) d" by simp
    qed
    moreover have "far_apart norm_of_difference d ps"
      unfolding Cons.IH
    proof (intro allI impI)
      fix i j assume "i < j \<and> j < length ps"
      with a[rule_format, of "Suc i" "Suc j"]
      show "double_greater (norm_of_difference (ps ! j) (ps ! i)) d" by simp
    qed
    ultimately show "far_apart norm_of_difference d (p # ps)" by simp
  qed
qed

lemma position_A_getVertex:
  "getVertex m (closest_vertex_id (candidate_A c)) = Inr v \<Longrightarrow>
   position_A m c = Some (get_p_M_I v)"
  by (auto simp: getVertex_def position_A_def split: option.splits)

lemma distance_loop_inv:
  assumes "distance_loop norm_of_difference cap d m ps left cs = Inr (ps', left', r)"
    and "map (position_A m) left = map Some ps"
    and "far_apart norm_of_difference d ps"
  shows "map (position_A m) (left' @ take 1 r) = map Some ps' \<and> far_apart norm_of_difference d ps' \<and>
         (r \<noteq> [] \<longrightarrow> cap \<le> length ps')"
  using assms
proof (induction cs arbitrary: ps left)
  case Nil
  then show ?case by simp
next
  case (Cons c cs)
  from Cons.prems(1) obtain v where v: "getVertex m (closest_vertex_id (candidate_A c)) = Inr v"
    by (auto split: sum.splits)
  let ?pos = "get_p_M_I v"
  let ?valid = "list_all (\<lambda>p. double_greater (norm_of_difference ?pos p) d) ps"
  have pos: "position_A m c = Some ?pos" using v by (rule position_A_getVertex)
  show ?case
  proof (cases ?valid)
    case False
    then have "distance_loop norm_of_difference cap d m ps left cs = Inr (ps', left', r)"
      using Cons.prems(1) v by (simp add: Let_def)
    from Cons.IH[OF this Cons.prems(2,3)] show ?thesis .
  next
    case True
    have fa: "far_apart norm_of_difference d (ps @ [?pos])" using True Cons.prems(3) by (simp add: far_apart_snoc)
    show ?thesis
    proof (cases "cap \<le> length (ps @ [?pos])")
      case True
      then have "Inr (ps @ [?pos], left, c # cs) = (Inr (ps', left', r) :: error + _)"
        using Cons.prems(1) v \<open>?valid\<close> by (simp add: Let_def)
      then have "ps' = ps @ [?pos]" "left' = left" "r = c # cs" by simp_all
      then show ?thesis using fa pos Cons.prems(2) True by simp
    next
      case False
      then have "distance_loop norm_of_difference cap d m (ps @ [?pos]) (left @ [c]) cs = Inr (ps', left', r)"
        using Cons.prems(1) v \<open>?valid\<close> by (simp add: Let_def)
      moreover have "map (position_A m) (left @ [c]) = map Some (ps @ [?pos])"
        using pos Cons.prems(2) by simp
      ultimately show ?thesis using fa by (rule Cons.IH)
    qed
  qed
qed

lemma distance_loop_returns:
  assumes "list_all (\<lambda>c. vertices m (closest_vertex_id (candidate_A c)) \<noteq> None) cs"
  shows "\<exists>st. distance_loop norm_of_difference cap d m ps left cs = Inr st"
  using assms
proof (induction cs arbitrary: ps left)
  case Nil
  then show ?case by simp
next
  case (Cons c cs)
  then obtain v where "vertices m (closest_vertex_id (candidate_A c)) = Some v" by auto
  then have v: "getVertex m (closest_vertex_id (candidate_A c)) = Inr v"
    by (simp add: getVertex_def)
  have rest: "list_all (\<lambda>c. vertices m (closest_vertex_id (candidate_A c)) \<noteq> None) cs"
    using Cons.prems by simp
  show ?case
    using v Cons.IH[OF rest] by (simp add: Let_def)
qed

lemma distance_loop_count:
  assumes "distance_loop norm_of_difference cap d m ps left cs = Inr (ps', left', r)"
    and "length ps < cap"
  shows "(r \<noteq> [] \<longrightarrow> length ps' = cap) \<and> (r = [] \<longrightarrow> length ps' < cap)"
  using assms
proof (induction cs arbitrary: ps left)
  case Nil
  then show ?case by auto
next
  case (Cons c cs)
  from Cons.prems(1) obtain v where v: "getVertex m (closest_vertex_id (candidate_A c)) = Inr v"
    by (auto split: sum.splits)
  let ?pos = "get_p_M_I v"
  let ?valid = "list_all (\<lambda>p. double_greater (norm_of_difference ?pos p) d) ps"
  show ?case
  proof (cases ?valid)
    case False
    then have "distance_loop norm_of_difference cap d m ps left cs = Inr (ps', left', r)"
      using Cons.prems(1) v by (simp add: Let_def)
    from Cons.IH[OF this Cons.prems(2)] show ?thesis .
  next
    case True
    show ?thesis
    proof (cases "cap \<le> length (ps @ [?pos])")
      case True
      then have "Inr (ps @ [?pos], left, c # cs) = (Inr (ps', left', r) :: error + _)"
        using Cons.prems(1) v \<open>?valid\<close> by (simp add: Let_def)
      then have "ps' = ps @ [?pos]" "r = c # cs" by simp_all
      then show ?thesis using True Cons.prems(2) by simp
    next
      case False
      then have "distance_loop norm_of_difference cap d m (ps @ [?pos]) (left @ [c]) cs = Inr (ps', left', r)"
        using Cons.prems(1) v \<open>?valid\<close> by (simp add: Let_def)
      moreover have "length (ps @ [?pos]) < cap" using False by simp
      ultimately show ?thesis by (rule Cons.IH)
    qed
  qed
qed

lemma distance_loop_suffix:
  assumes "distance_loop norm_of_difference cap d m ps left cs = Inr (ps', left', r)"
  shows "suffix r cs"
  using assms
proof (induction cs arbitrary: ps left)
  case Nil
  then show ?case by simp
next
  case (Cons c cs)
  from Cons.prems obtain v where v: "getVertex m (closest_vertex_id (candidate_A c)) = Inr v"
    by (auto split: sum.splits)
  let ?pos = "get_p_M_I v"
  let ?valid = "list_all (\<lambda>p. double_greater (norm_of_difference ?pos p) d) ps"
  show ?case
  proof (cases "?valid \<and> cap \<le> length (ps @ [?pos])")
    case True
    then have "Inr (ps @ [?pos], left, c # cs) = (Inr (ps', left', r) :: error + _)"
      using Cons.prems v by (simp add: Let_def)
    then show ?thesis by auto
  next
    case False
    then have "\<exists>ps1 left1. distance_loop norm_of_difference cap d m ps1 left1 cs = Inr (ps', left', r)"
      using Cons.prems v by (auto simp: Let_def split: if_splits)
    then have "suffix r cs" using Cons.IH by blast
    then show ?thesis by (rule suffix_ConsI)
  qed
qed

lemma distance_loop_stop_extends:
  assumes "distance_loop norm_of_difference cap d m ps left cs = Inr (ps', left', r)" and "r \<noteq> []"
  shows "distance_loop norm_of_difference cap d m ps left (cs @ rest) = Inr (ps', left', r @ rest)"
  using assms
proof (induction cs arbitrary: ps left)
  case Nil
  then show ?case by simp
next
  case (Cons c cs)
  from Cons.prems(1) obtain v where v: "getVertex m (closest_vertex_id (candidate_A c)) = Inr v"
    by (auto split: sum.splits)
  let ?pos = "get_p_M_I v"
  let ?valid = "list_all (\<lambda>p. double_greater (norm_of_difference ?pos p) d) ps"
  show ?case
  proof (cases ?valid)
    case False
    then have "distance_loop norm_of_difference cap d m ps left cs = Inr (ps', left', r)"
      using Cons.prems(1) v by (simp add: Let_def)
    from Cons.IH[OF this Cons.prems(2)] show ?thesis using False v by (simp add: Let_def)
  next
    case True
    show ?thesis
    proof (cases "cap \<le> length (ps @ [?pos])")
      case True
      then have "Inr (ps @ [?pos], left, c # cs) = (Inr (ps', left', r) :: error + _)"
        using Cons.prems(1) v \<open>?valid\<close> by (simp add: Let_def)
      then have "ps' = ps @ [?pos]" "left' = left" "r = c # cs" by simp_all
      then show ?thesis using True v \<open>?valid\<close> by (simp add: Let_def)
    next
      case False
      then have "distance_loop norm_of_difference cap d m (ps @ [?pos]) (left @ [c]) cs = Inr (ps', left', r)"
        using Cons.prems(1) v \<open>?valid\<close> by (simp add: Let_def)
      from Cons.IH[OF this Cons.prems(2)] show ?thesis
        using False v \<open>?valid\<close> by (simp add: Let_def)
    qed
  qed
qed

lemma distance_strategy_result:
  assumes "filter_strategy config = ''distance''"
    and "0 \<le> max_number_of_candidates config"
    and "distance_loop norm_of_difference (nat (max_number_of_candidates config))
           (min_distance_to_next_candidate config) m [] [] cs = Inr (ps, left, r)"
  shows "filter_candidates_based_on_strategy norm_of_difference config shuffle m cs = Inr ([], left @ r)"
  using assms
  by (simp add: filter_candidates_based_on_strategy_def filter_candidates_based_on_distance_def)

lemma distance_loop_accepted_far_apart:
  assumes run: "distance_loop norm_of_difference cap d m [] [] cs = Inr (ps, left, r)"
    and ij: "i < j" "j < length (left @ r)" "j < cap"
  shows "\<exists>p q. position_A m ((left @ r) ! i) = Some p \<and>
           position_A m ((left @ r) ! j) = Some q \<and> double_greater (norm_of_difference q p) d"
proof -
  from distance_loop_inv[OF run] have
    pos: "map (position_A m) (left @ take 1 r) = map Some ps"
    and far: "far_apart norm_of_difference d ps"
    and stop: "r \<noteq> [] \<longrightarrow> cap \<le> length ps"
    by simp_all
  have len: "length (left @ take 1 r) = length ps"
    using pos by (metis length_map)
  have j: "j < length (left @ take 1 r)"
  proof (cases r)
    case Nil
    then show ?thesis using ij(2) by simp
  next
    case (Cons x xs)
    then show ?thesis using stop len ij(3) by simp
  qed
  have same: "(left @ r) ! n = (left @ take 1 r) ! n" if "n < length (left @ take 1 r)" for n
    using that by (cases r) (auto simp: nth_append)
  have at: "position_A m ((left @ take 1 r) ! n) = Some (ps ! n)"
    if "n < length (left @ take 1 r)" for n
  proof -
    have "map (position_A m) (left @ take 1 r) ! n = map Some ps ! n" using pos by simp
    then show ?thesis using that len by (simp del: map_append)
  qed
  have i: "i < length (left @ take 1 r)" using ij(1) j by simp
  have "double_greater (norm_of_difference (ps ! j) (ps ! i)) d"
    using far ij(1) j len by (simp add: far_apart_pairs)
  then show ?thesis using same[OF i] same[OF j] at[OF i] at[OF j] by simp
qed

lemma distance_strategy_returned:
  assumes "filter_strategy config = ''distance''"
    and "0 \<le> max_number_of_candidates config"
    and "filter_candidates_based_on_strategy norm_of_difference config shuffle m cs = Inr (diagnostics, kept)"
  shows "\<exists>ps left r. distance_loop norm_of_difference (nat (max_number_of_candidates config))
           (min_distance_to_next_candidate config) m [] [] cs = Inr (ps, left, r) \<and>
           kept = left @ r \<and> diagnostics = []"
  using assms
  by (auto simp: filter_candidates_based_on_strategy_def filter_candidates_based_on_distance_def
           split: sum.splits)

text \<open>
  C1 (as amended). With the distance strategy and a cap that is not negative: whenever the
  strategy pass returns, among the first \<^verbatim>\<open>max_number_of_candidates\<close> candidates of the
  collection every later one is farther than \<^verbatim>\<open>min_distance_to_next_candidate\<close> from
  every earlier one. The positions are those of the \<open>A\<close> vertices, and the distance is the
  one the code computes and compares: the norm of the later position minus the earlier one
  as the double arithmetic returns it, whatever that arithmetic is, greater than the
  minimum in the comparison of doubles. The pass does return when the \<open>A\<close> vertices of all
  candidates are in the graph.
\<close>

theorem accepted_candidates_far_apart:
  assumes "filter_strategy config = ''distance''"
    and "0 \<le> max_number_of_candidates config"
  shows "(\<forall>diagnostics kept.
            filter_candidates_based_on_strategy norm_of_difference config shuffle m cs = Inr (diagnostics, kept) \<longrightarrow>
            (\<forall>i j. i < j \<and> j < length kept \<and> j < nat (max_number_of_candidates config) \<longrightarrow>
               (\<exists>p q. position_A m (kept ! i) = Some p \<and> position_A m (kept ! j) = Some q \<and>
                  double_greater (norm_of_difference q p) (min_distance_to_next_candidate config)))) \<and>
         (list_all (\<lambda>c. vertices m (closest_vertex_id (candidate_A c)) \<noteq> None) cs \<longrightarrow>
            (\<exists>kept. filter_candidates_based_on_strategy norm_of_difference config shuffle m cs = Inr ([], kept)))"
proof (intro conjI allI impI)
  fix diagnostics kept i j
  assume res: "filter_candidates_based_on_strategy norm_of_difference config shuffle m cs = Inr (diagnostics, kept)"
    and ij: "i < j \<and> j < length kept \<and> j < nat (max_number_of_candidates config)"
  from distance_strategy_returned[OF assms res] obtain ps left r where
    run: "distance_loop norm_of_difference (nat (max_number_of_candidates config))
           (min_distance_to_next_candidate config) m [] [] cs = Inr (ps, left, r)"
    and kept: "kept = left @ r"
    by blast
  from ij kept have "i < j" "j < length (left @ r)" "j < nat (max_number_of_candidates config)"
    by simp_all
  from distance_loop_accepted_far_apart[OF run this]
  show "\<exists>p q. position_A m (kept ! i) = Some p \<and> position_A m (kept ! j) = Some q \<and>
          double_greater (norm_of_difference q p) (min_distance_to_next_candidate config)"
    using kept by simp
next
  assume ok: "list_all (\<lambda>c. vertices m (closest_vertex_id (candidate_A c)) \<noteq> None) cs"
  from distance_loop_returns[OF ok, where cap = "nat (max_number_of_candidates config)"
      and d = "min_distance_to_next_candidate config" and ps = "[]" and left = "[]"
      and norm_of_difference = norm_of_difference]
  obtain ps left r where
    "distance_loop norm_of_difference (nat (max_number_of_candidates config))
       (min_distance_to_next_candidate config) m [] [] cs = Inr (ps, left, r)"
    by (metis prod_cases3)
  from distance_strategy_result[OF assms this]
  show "\<exists>kept. filter_candidates_based_on_strategy norm_of_difference config shuffle m cs = Inr ([], kept)"
    by blast
qed

theorem accepted_candidates_far_apart_witness:
  "filter_strategy line_config = ''distance'' \<and> 0 \<le> max_number_of_candidates line_config \<and>
   list_all (\<lambda>c. vertices line_map (closest_vertex_id (candidate_A c)) \<noteq> None)
     line_candidates \<and>
   filter_candidates_based_on_strategy exact_norm_of_difference line_config id line_map line_candidates =
     Inr ([], [pair_of 0 5, pair_of 2 5, pair_of 4 5]) \<and>
   (\<exists>p q. position_A line_map (pair_of 0 5) = Some p \<and>
      position_A line_map (pair_of 4 5) = Some q \<and>
      double_greater (exact_norm_of_difference q p) (min_distance_to_next_candidate line_config))"
proof -
  have h1: "filter_strategy line_config = ''distance''" by (simp add: line_config_def)
  have h2: "0 \<le> max_number_of_candidates line_config" by (simp add: line_config_def)
  have h3: "list_all (\<lambda>c. vertices line_map (closest_vertex_id (candidate_A c)) \<noteq> None)
     line_candidates"
    by (simp add: example_defs)
  have r: "filter_candidates_based_on_strategy exact_norm_of_difference line_config id line_map line_candidates =
     Inr ([], [pair_of 0 5, pair_of 2 5, pair_of 4 5])"
    by (simp add: example_defs strategy_defs exact_norm_greater)
  have ij: "(0::nat) < 2 \<and> 2 < length [pair_of 0 5, pair_of 2 5, pair_of 4 5] \<and>
            2 < nat (max_number_of_candidates line_config)"
    by (simp add: line_config_def)
  from accepted_candidates_far_apart[OF h1 h2, where norm_of_difference = exact_norm_of_difference
      and shuffle = id and m = line_map and cs = line_candidates] r ij
  have "\<exists>p q. position_A line_map ([pair_of 0 5, pair_of 2 5, pair_of 4 5] ! 0) = Some p \<and>
      position_A line_map ([pair_of 0 5, pair_of 2 5, pair_of 4 5] ! 2) = Some q \<and>
      double_greater (exact_norm_of_difference q p) (min_distance_to_next_candidate line_config)"
    by blast
  then have "\<exists>p q. position_A line_map (pair_of 0 5) = Some p \<and>
      position_A line_map (pair_of 4 5) = Some q \<and>
      double_greater (exact_norm_of_difference q p) (min_distance_to_next_candidate line_config)"
    by simp
  with h1 h2 h3 r show ?thesis by blast
qed

text \<open>
  C1 as stated, for every retained pair, does not hold: with a cap of one the pass stops at
  the first candidate without computing a distance, and the second one, one unit away,
  stays in the collection.
\<close>

theorem retained_pair_too_close:
  "filter_candidates_based_on_strategy exact_norm_of_difference
     (line_config\<lparr>max_number_of_candidates := 1\<rparr>) id line_map [pair_of 0 5, pair_of 1 5] = Inr ([], [pair_of 0 5, pair_of 1 5]) \<and>
   position_A line_map (pair_of 0 5) = Some (point 0 0 0) \<and>
   position_A line_map (pair_of 1 5) = Some (point 1 0 0) \<and>
   \<not> double_greater (exact_norm_of_difference (point 1 0 0) (point 0 0 0))
       (min_distance_to_next_candidate (line_config\<lparr>max_number_of_candidates := 1\<rparr>))"
  by (simp add: example_defs strategy_defs position_A_def exact_norm_greater)

text \<open>
  Why the amended statement speaks of the computed distance: two positions \<open>2 ^ 700\<close>
  apart are closer than a minimum of \<open>2 ^ 1000\<close>, but the square of their distance
  overflows, the computed norm is an infinity, and both candidates are accepted.
\<close>

lemma overflow_accepts_close_pair:
  "filter_candidates_based_on_strategy overflowing_norm_of_difference
     (line_config\<lparr>min_distance_to_next_candidate := Finite (2 ^ 1000)\<rparr>) id far_map
     [pair_of 0 1, pair_of 1 0] = Inr ([], [pair_of 0 1, pair_of 1 0]) \<and>
   position_A far_map (pair_of 0 1) = Some (point 0 0 0) \<and>
   position_A far_map (pair_of 1 0) = Some (point (2 ^ 700) 0 0) \<and>
   exact_norm_of_difference (point (2 ^ 700) 0 0) (point 0 0 0) = Finite (2 ^ 700) \<and>
   \<not> double_greater (Finite (2 ^ 700)) (Finite (2 ^ 1000))"
proof -
  have sq: "(2::real) ^ 700 * 2 ^ 700 = 2 ^ 1400" by (simp add: power_add[symmetric])
  have big: "(2::real) ^ 1024 \<le> 2 ^ 1400" by (rule power_increasing) simp_all
  have small: "\<not> (2::real) ^ 1000 < 2 ^ 700" by (simp add: power_strict_increasing_iff)
  have "((2::real) ^ 700) ^ 2 = 2 ^ 1400" by (simp add: power_mult[symmetric])
  then have rt: "sqrt ((2::real) ^ 1400) = 2 ^ 700" by (rule real_sqrt_unique) simp
  have ex: "exact_norm_of_difference (point (2 ^ 700) 0 0) (point 0 0 0) = Finite (2 ^ 700)"
    using sq rt by (simp add: exact_norm_of_difference_point del: power_numeral)
  have ov: "overflowing_norm_of_difference (point (2 ^ 700) 0 0) (point 0 0 0) = PlusInfinity"
    using sq big by (simp add: overflowing_norm_of_difference_def ex del: power_numeral)
  have run: "filter_candidates_based_on_strategy overflowing_norm_of_difference
     (line_config\<lparr>min_distance_to_next_candidate := Finite (2 ^ 1000)\<rparr>) id far_map
     [pair_of 0 1, pair_of 1 0] = Inr ([], [pair_of 0 1, pair_of 1 0])"
    by (simp add: example_defs strategy_defs ov del: power_numeral)
  have pos: "position_A far_map (pair_of 0 1) = Some (point 0 0 0) \<and>
   position_A far_map (pair_of 1 0) = Some (point (2 ^ 700) 0 0)"
    by (simp add: example_defs position_A_def del: power_numeral)
  show ?thesis using run pos ex small by simp
qed

lemma end_to_end_for_arithmetic:
  assumes "\<not> double_greater (norm_of_difference (point 1 0 0) (point 0 0 0)) (Finite 2)"
    and "double_greater (norm_of_difference (point 5 0 0) (point 0 0 0)) (Finite 2)"
    and "\<not> double_greater (norm_of_difference (point 5 1 0) (point 5 0 0)) (Finite 2)"
    and "double_greater (norm_of_difference (point 10 0 0) (point 0 0 0)) (Finite 2)"
    and "double_greater (norm_of_difference (point 10 0 0) (point 5 0 0)) (Finite 2)"
  shows "selectAlignmentCandidatePairs norm_of_difference line_config shuffle line_map
           line_candidates = Inr (True, line_map, [], [pair_of 0 5, pair_of 2 5, pair_of 4 5])"
proof -
  have q: "filter_candidates_based_on_quality line_config line_map line_candidates =
           Inr (line_map, line_candidates)"
    by (simp add: example_defs quality_defs)
  have s: "filter_candidates_based_on_strategy norm_of_difference line_config shuffle line_map
             line_candidates = Inr ([], [pair_of 0 5, pair_of 2 5, pair_of 4 5])"
    using assms by (simp add: example_defs strategy_defs)
  show ?thesis by (simp add: selectAlignmentCandidatePairs_def q s)
qed

text \<open>
  C2. The end-to-end example: five valid candidates at the given positions, no edge in the
  graph, the distance strategy with a minimum distance of 2 and a cap of 3. The selection
  returns success, leaves the graph as it is, logs nothing and keeps the candidates at
  \<open>(0,0,0)\<close>, \<open>(5,0,0)\<close> and \<open>(10,0,0)\<close>, in this order. The norms are the exact ones;
  by the lemma before, every arithmetic that decides the five comparisons of the run the
  same way gives the same result.
\<close>

theorem end_to_end_example:
  "selectAlignmentCandidatePairs exact_norm_of_difference line_config shuffle line_map line_candidates =
     Inr (True, line_map, [], [pair_of 0 5, pair_of 2 5, pair_of 4 5]) \<and>
   map (position_A line_map) [pair_of 0 5, pair_of 2 5, pair_of 4 5] =
     [Some (point 0 0 0), Some (point 5 0 0), Some (point 10 0 0)] \<and>
   length [pair_of 0 5, pair_of 2 5, pair_of 4 5] = 3"
proof -
  have q: "filter_candidates_based_on_quality line_config line_map line_candidates =
           Inr (line_map, line_candidates)"
    by (simp add: example_defs quality_defs)
  have s: "filter_candidates_based_on_strategy exact_norm_of_difference line_config shuffle line_map line_candidates =
           Inr ([], [pair_of 0 5, pair_of 2 5, pair_of 4 5])"
    by (simp add: example_defs strategy_defs exact_norm_greater)
  have "selectAlignmentCandidatePairs exact_norm_of_difference line_config shuffle line_map line_candidates =
     Inr (True, line_map, [], [pair_of 0 5, pair_of 2 5, pair_of 4 5])"
    by (simp add: selectAlignmentCandidatePairs_def q s)
  moreover have "map (position_A line_map) [pair_of 0 5, pair_of 2 5, pair_of 4 5] =
     [Some (point 0 0 0), Some (point 5 0 0), Some (point 10 0 0)]"
    by (simp add: example_defs position_A_def)
  ultimately show ?thesis by simp
qed

text \<open>
  C6. With the distance strategy and a positive cap: if on the collection \<open>cs\<close> the number
  of accepted candidates reaches the cap, the loop has stopped with its iterator inside
  the collection, and whatever follows \<open>cs\<close> in a longer collection is not examined: the
  loop ends in the same state, and the candidates from the iterator onwards, the added ones
  included, are in the result as they were.
\<close>

theorem cap_reached_rest_untouched:
  assumes "filter_strategy config = ''distance''"
    and "0 < max_number_of_candidates config"
    and "distance_loop norm_of_difference (nat (max_number_of_candidates config))
           (min_distance_to_next_candidate config) m [] [] cs = Inr (ps, left, from_it)"
    and "length ps = nat (max_number_of_candidates config)"
  shows "from_it \<noteq> [] \<and> suffix from_it cs \<and>
         distance_loop norm_of_difference (nat (max_number_of_candidates config))
           (min_distance_to_next_candidate config) m [] [] (cs @ rest) =
           Inr (ps, left, from_it @ rest) \<and>
         filter_candidates_based_on_strategy norm_of_difference config shuffle m (cs @ rest) =
           Inr ([], left @ from_it @ rest)"
proof -
  let ?cap = "nat (max_number_of_candidates config)"
  have "length ([] :: Vector3d list) < ?cap" using assms(2) by simp
  from distance_loop_count[OF assms(3) this] assms(4)
  have ne: "from_it \<noteq> []" by auto
  have suf: "suffix from_it cs" using assms(3) by (rule distance_loop_suffix)
  have run: "distance_loop norm_of_difference ?cap (min_distance_to_next_candidate config) m [] [] (cs @ rest) =
           Inr (ps, left, from_it @ rest)"
    using assms(3) ne by (rule distance_loop_stop_extends)
  have "0 \<le> max_number_of_candidates config" using assms(2) by simp
  from distance_strategy_result[OF assms(1) this run]
  show ?thesis using ne suf run by simp
qed

theorem cap_reached_rest_untouched_witness:
  "filter_strategy line_config = ''distance'' \<and> 0 < max_number_of_candidates line_config \<and>
   distance_loop exact_norm_of_difference (nat (max_number_of_candidates line_config))
     (min_distance_to_next_candidate line_config) line_map [] [] line_candidates =
     Inr ([point 0 0 0, point 5 0 0, point 10 0 0], [pair_of 0 5, pair_of 2 5], [pair_of 4 5]) \<and>
   length [point 0 0 0, point 5 0 0, point 10 0 0] =
     nat (max_number_of_candidates line_config) \<and>
   filter_candidates_based_on_strategy exact_norm_of_difference line_config id line_map
     (line_candidates @ [pair_of 1 5, pair_of 9 9]) =
     Inr ([], [pair_of 0 5, pair_of 2 5, pair_of 4 5, pair_of 1 5, pair_of 9 9])"
proof -
  have h1: "filter_strategy line_config = ''distance''" by (simp add: line_config_def)
  have h2: "0 < max_number_of_candidates line_config" by (simp add: line_config_def)
  have h3: "distance_loop exact_norm_of_difference (nat (max_number_of_candidates line_config))
     (min_distance_to_next_candidate line_config) line_map [] [] line_candidates =
     Inr ([point 0 0 0, point 5 0 0, point 10 0 0], [pair_of 0 5, pair_of 2 5], [pair_of 4 5])"
    by (simp add: example_defs getVertex_def exact_norm_greater)
  have h4: "length [point 0 0 0, point 5 0 0, point 10 0 0] =
     nat (max_number_of_candidates line_config)"
    by (simp add: line_config_def)
  from cap_reached_rest_untouched[OF h1 h2 h3 h4,
      where shuffle = id and rest = "[pair_of 1 5, pair_of 9 9]"]
  show ?thesis using h1 h2 h3 h4 by simp
qed

text \<open>
  C7. With a cap of zero and a collection whose first candidate has its \<open>A\<close> vertex in the
  graph, the distance strategy leaves the whole collection as it is, while the random
  strategy, for every order the shuffle may produce, empties it.
\<close>

theorem zero_cap_distance_keeps_random_empties:
  assumes "max_number_of_candidates config = 0"
    and "filter_strategy config = ''distance''"
    and "cs \<noteq> []"
    and "vertices m (closest_vertex_id (candidate_A (hd cs))) \<noteq> None"
    and "mset (shuffle [0..<length cs]) = mset [0..<length cs]"
  shows "filter_candidates_based_on_strategy norm_of_difference config shuffle m cs = Inr ([], cs) \<and>
         filter_candidates_based_on_strategy norm_of_difference (config\<lparr>filter_strategy := ''random''\<rparr>)
           shuffle m cs = Inr ([], [])"
proof -
  from assms(3) obtain c rest where cs: "cs = c # rest" by (cases cs) auto
  from assms(4) cs obtain v where "getVertex m (closest_vertex_id (candidate_A c)) = Inr v"
    by (auto simp: getVertex_def)
  then have "filter_candidates_based_on_distance norm_of_difference 0
               (min_distance_to_next_candidate config) m cs = Inr cs"
    using cs by (simp add: filter_candidates_based_on_distance_def Let_def)
  then have d: "filter_candidates_based_on_strategy norm_of_difference config shuffle m cs = Inr ([], cs)"
    using assms(1,2) by (simp add: filter_candidates_based_on_strategy_def)
  have "length (filter_candidates_randomly shuffle 0 cs) = min (length cs) 0"
    using assms(5) by (rule random_length)
  then have "filter_candidates_randomly shuffle 0 cs = []" by simp
  then have "filter_candidates_based_on_strategy norm_of_difference (config\<lparr>filter_strategy := ''random''\<rparr>)
           shuffle m cs = Inr ([], [])"
    using assms(1) by (simp add: filter_candidates_based_on_strategy_def)
  with d show ?thesis by simp
qed

theorem zero_cap_distance_keeps_random_empties_witness:
  "max_number_of_candidates (line_config\<lparr>max_number_of_candidates := 0\<rparr>) = 0 \<and>
   filter_strategy (line_config\<lparr>max_number_of_candidates := 0\<rparr>) = ''distance'' \<and>
   line_candidates \<noteq> [] \<and>
   vertices line_map (closest_vertex_id (candidate_A (hd line_candidates))) \<noteq> None \<and>
   mset (rev [0..<length line_candidates]) = mset [0..<length line_candidates] \<and>
   filter_candidates_based_on_strategy exact_norm_of_difference (line_config\<lparr>max_number_of_candidates := 0\<rparr>) rev
     line_map line_candidates = Inr ([], line_candidates) \<and>
   filter_candidates_based_on_strategy exact_norm_of_difference
     (line_config\<lparr>max_number_of_candidates := 0, filter_strategy := ''random''\<rparr>) rev
     line_map line_candidates = Inr ([], [])"
proof -
  let ?config = "line_config\<lparr>max_number_of_candidates := 0\<rparr>"
  have h1: "max_number_of_candidates ?config = 0" by simp
  have h2: "filter_strategy ?config = ''distance''" by (simp add: line_config_def)
  have h3: "line_candidates \<noteq> []" by (simp add: line_candidates_def)
  have h4: "vertices line_map (closest_vertex_id (candidate_A (hd line_candidates))) \<noteq> None"
    by (simp add: example_defs)
  have h5: "mset (rev [0..<length line_candidates]) = mset [0..<length line_candidates]"
    by simp
  from zero_cap_distance_keeps_random_empties
    [where config = ?config and cs = line_candidates and m = line_map and shuffle = rev]
  show ?thesis using h1 h2 h3 h4 h5 by simp
qed

text \<open>
  C9. With a negative \<^verbatim>\<open>max_number_of_candidates\<close> the strategy pass returns the collection
  it was given and logs nothing, whatever the strategy, the graph and the collection are.
\<close>

theorem negative_cap_no_action:
  assumes "max_number_of_candidates config < 0"
  shows "filter_candidates_based_on_strategy norm_of_difference config shuffle m cs = Inr ([], cs)"
  using assms by (simp add: filter_candidates_based_on_strategy_def)

theorem negative_cap_no_action_witness:
  "max_number_of_candidates lc_config < 0 \<and>
   filter_candidates_based_on_strategy exact_norm_of_difference lc_config rev lc_map [pair_of 0 1, pair_of 7 8] =
     Inr ([], [pair_of 0 1, pair_of 7 8])"
proof -
  have h: "max_number_of_candidates lc_config < 0" by (simp add: lc_config_def)
  from negative_cap_no_action[OF h] h show ?thesis by simp
qed

text \<open>
  C10. With a cap that is not negative and a strategy that is neither \<open>random\<close> nor
  \<open>distance\<close>, the strategy pass logs one error line and returns the collection it was
  given. The selection then returns success with exactly the graph and the candidates of
  the quality pass, whenever the quality pass returns; it does return when the checks pass
  for every valid candidate.
\<close>

theorem unknown_strategy_passes_through:
  assumes "0 \<le> max_number_of_candidates config"
    and "filter_strategy config \<noteq> ''random''"
    and "filter_strategy config \<noteq> ''distance''"
  shows "filter_candidates_based_on_strategy norm_of_difference config shuffle m cs =
           Inr ([''Unknown filter strategy '' @ filter_strategy config], cs) \<and>
         selectAlignmentCandidatePairs norm_of_difference config shuffle m cs =
           (case filter_candidates_based_on_quality config m cs of
              Inl e \<Rightarrow> Inl e
            | Inr (m', kept) \<Rightarrow>
                Inr (True, m', [''Unknown filter strategy '' @ filter_strategy config], kept)) \<and>
         (candidates_ok m cs \<longrightarrow>
            (\<exists>m'. selectAlignmentCandidatePairs norm_of_difference config shuffle m cs =
               Inr (True, m', [''Unknown filter strategy '' @ filter_strategy config],
                    filter (stays config m) cs)))"
proof -
  have pass: "filter_candidates_based_on_strategy norm_of_difference config shuffle g xs =
           Inr ([''Unknown filter strategy '' @ filter_strategy config], xs)" for g xs
    using assms by (simp add: filter_candidates_based_on_strategy_def)
  have sel: "selectAlignmentCandidatePairs norm_of_difference config shuffle m cs =
           (case filter_candidates_based_on_quality config m cs of
              Inl e \<Rightarrow> Inl e
            | Inr (m', kept) \<Rightarrow>
                Inr (True, m', [''Unknown filter strategy '' @ filter_strategy config], kept))"
    by (simp add: selectAlignmentCandidatePairs_def pass split: sum.splits)
  have "\<exists>m'. selectAlignmentCandidatePairs norm_of_difference config shuffle m cs =
               Inr (True, m', [''Unknown filter strategy '' @ filter_strategy config],
                    filter (stays config m) cs)"
    if "candidates_ok m cs"
  proof -
    from quality_pass_result[OF that, of config] obtain m' where
      "filter_candidates_based_on_quality config m cs = Inr (m', filter (stays config m) cs)"
      by blast
    then show ?thesis using sel by simp
  qed
  with pass sel show ?thesis by blast
qed

theorem unknown_strategy_passes_through_witness:
  "0 \<le> max_number_of_candidates (line_config\<lparr>filter_strategy := ''nearest''\<rparr>) \<and>
   filter_strategy (line_config\<lparr>filter_strategy := ''nearest''\<rparr>) \<noteq> ''random'' \<and>
   filter_strategy (line_config\<lparr>filter_strategy := ''nearest''\<rparr>) \<noteq> ''distance'' \<and>
   filter_candidates_based_on_strategy exact_norm_of_difference (line_config\<lparr>filter_strategy := ''nearest''\<rparr>) id
     line_map line_candidates = Inr ([''Unknown filter strategy nearest''], line_candidates) \<and>
   selectAlignmentCandidatePairs exact_norm_of_difference (line_config\<lparr>filter_strategy := ''nearest''\<rparr>) id line_map
     line_candidates = Inr (True, line_map, [''Unknown filter strategy nearest''], line_candidates)"
proof -
  let ?config = "line_config\<lparr>filter_strategy := ''nearest''\<rparr>"
  have h1: "0 \<le> max_number_of_candidates ?config" by (simp add: line_config_def)
  have h2: "filter_strategy ?config \<noteq> ''random''" by simp
  have h3: "filter_strategy ?config \<noteq> ''distance''" by simp
  have q: "filter_candidates_based_on_quality ?config line_map line_candidates =
           Inr (line_map, line_candidates)"
    by (simp add: example_defs quality_defs)
  from unknown_strategy_passes_through[OF h1 h2 h3, where norm_of_difference = exact_norm_of_difference
      and shuffle = id and m = line_map and cs = line_candidates]
  show ?thesis using h1 h2 h3 q by simp
qed

end
